theory Spec2Isabelle
  imports
    Main
    "HOL-Library.AList"
    "HOL-Library.Multiset"
    "HOL-Library.Char_ord"
    "HOL-Library.List_Lexorder"
begin

section \<open>The metrics model of \<^verbatim>\<open>viz/src/lib/data-loader.ts\<close>\<close>

text \<open>
  Counts, years and months are JavaScript numbers, that is IEEE 754 doubles, that hold
  integers; a number is modelled by the integer it holds. A JavaScript object is modelled
  by the list of its own enumerable entries in the order \<^verbatim>\<open>Object.entries\<close> lists them;
  in such a list the keys are pairwise distinct (predicate \<open>wf_metrics\<close> below). A
  document that \<^verbatim>\<open>JSON.parse\<close> returns has the prototype \<^verbatim>\<open>Object.prototype\<close>, which has
  no enumerable property: a lookup \<^verbatim>\<open>obj[key]\<close> with a key that is not an own key finds
  nothing or an object without entries, and the functions below return 0 or the empty
  list either way. The lookup is modelled by \<open>map_of\<close>.
\<close>

subsection \<open>Addition of numbers\<close>

fun bit_length :: "nat \<Rightarrow> nat" where
  "bit_length n = (if n = 0 then 0 else Suc (bit_length (n div 2)))"

declare bit_length.simps [simp del]

text \<open>The integer nearest to \<open>n / d\<close> for \<open>d > 0\<close>, the even one of two nearest.\<close>

definition round_half_even :: "int \<Rightarrow> int \<Rightarrow> int" where
  "round_half_even n d =
     (let q = n div d; r = n mod d
      in if 2 * r < d then q else if d < 2 * r then q + 1 else if even q then q else q + 1)"

text \<open>
  The double nearest to an integer: an integer of magnitude below \<open>2\<^sup>5\<^sup>3\<close> is a double;
  a larger one is rounded to 53 significant bits, to the even one of two nearest. \<open>a + b\<close>
  on two doubles that hold integers is the double nearest to the exact sum. Sums of
  magnitude \<open>2\<^sup>1\<^sup>0\<^sup>2\<^sup>4\<close> and more, which are \<^verbatim>\<open>Infinity\<close> in the code, are outside the
  model.
\<close>

definition round53 :: "int \<Rightarrow> int" where
  "round53 x =
     (if \<bar>x\<bar> < 2 ^ 53 then x
      else (let e = bit_length (nat \<bar>x\<bar>) - 53 in round_half_even x (2 ^ e) * 2 ^ e))"

definition js_add :: "int \<Rightarrow> int \<Rightarrow> int" where
  "js_add a b = round53 (a + b)"

subsection \<open>The model and its totals\<close>

record ym =
  year :: int
  month :: int

record MonthlyDataPoint = ym +
  count :: int

record MonthlyTrend = ym +
  total_count :: int

text \<open>
  The value stored under \<^verbatim>\<open>optimizedMetrics[metric][name]\<close> at run time: an array of
  monthly points, an object from month keys to counts, a bare number, or any other JSON
  value (\<^verbatim>\<open>null\<close>, a string, a boolean).
\<close>

datatype series =
    TimeSeries "MonthlyDataPoint list"
  | MonthTotals "(string \<times> int) list"
  | Scalar int
  | OtherShape

type_synonym Names = "(string \<times> series) list"
type_synonym OptimizedMetrics = "(string \<times> Names) list"

definition wf_metrics :: "OptimizedMetrics \<Rightarrow> bool" where
  "wf_metrics m = (distinct (map fst m) \<and> list_all (\<lambda>e. distinct (map fst (snd e))) m)"

text \<open>
  The chain \<^verbatim>\<open>if (Array.isArray(monthlyData)) ... else if (typeof monthlyData === 'object'
  && monthlyData !== null) ... else if (typeof monthlyData === 'number') ...\<close> that every
  totalling function repeats. \<open>series_total\<close> is the amount of one series: what
  \<^verbatim>\<open>reduce\<close> adds up from 0 for an array or a month-key object, and the number itself for
  a bare number. No branch is taken for any other shape.
\<close>

fun series_total :: "series \<Rightarrow> int" where
  "series_total (TimeSeries monthlyData) = foldl (\<lambda>sum d. js_add sum (count d)) 0 monthlyData"
| "series_total (MonthTotals monthlyData) = foldl (\<lambda>sum c. js_add sum c) 0 (map snd monthlyData)"
| "series_total (Scalar monthlyData) = monthlyData"
| "series_total OtherShape = 0"

text \<open>\<^verbatim>\<open>total += ...\<close> in the branch that the shape of the series selects, if any.\<close>

definition add_series :: "int \<Rightarrow> series \<Rightarrow> int" where
  "add_series acc monthlyData =
     (case monthlyData of
        OtherShape \<Rightarrow> acc
      | _ \<Rightarrow> js_add acc (series_total monthlyData))"

definition calculateTotalRecords :: "OptimizedMetrics \<Rightarrow> int" where
  "calculateTotalRecords optimizedMetrics =
     foldl (\<lambda>total names.
              foldl (\<lambda>total monthlyData. add_series total monthlyData) total (map snd names))
       0 (map snd optimizedMetrics)"

text \<open>
  The optional parameter \<^verbatim>\<open>name?: string\<close> is \<open>None\<close> when the argument is absent.
  \<^verbatim>\<open>!name\<close> holds for an absent argument and for the empty string.
\<close>

definition name_selected :: "string option \<Rightarrow> string \<Rightarrow> bool" where
  "name_selected name currentName =
     (case name of None \<Rightarrow> True | Some n \<Rightarrow> n = [] \<or> currentName = n)"

definition calculateTotalsByMetric :: "OptimizedMetrics \<Rightarrow> string \<Rightarrow> string option \<Rightarrow> int" where
  "calculateTotalsByMetric optimizedMetrics metric name =
     (case map_of optimizedMetrics metric of
        None \<Rightarrow> 0
      | Some names \<Rightarrow>
          foldl (\<lambda>total (currentName, monthlyData).
                   if name_selected name currentName then add_series total monthlyData
                   else total)
            0 names)"

text \<open>
  The counts that a series holds, their sum as integers, and the sum of their magnitudes.
  When the magnitudes of all counts of a model add up to less than \<open>2\<^sup>5\<^sup>3\<close>, every
  addition of the code is exact (predicate \<open>exact_sums\<close>).
\<close>

definition series_counts :: "series \<Rightarrow> int list" where
  "series_counts s =
     (case s of
        TimeSeries ps \<Rightarrow> map count ps
      | MonthTotals kv \<Rightarrow> map snd kv
      | Scalar n \<Rightarrow> [n]
      | OtherShape \<Rightarrow> [])"

definition exact_total :: "series \<Rightarrow> int" where
  "exact_total s = sum_list (series_counts s)"

definition series_abs :: "series \<Rightarrow> int" where
  "series_abs s = sum_list (map abs (series_counts s))"

definition names_abs :: "Names \<Rightarrow> int" where
  "names_abs names = sum_list (map (series_abs \<circ> snd) names)"

definition metrics_abs :: "OptimizedMetrics \<Rightarrow> int" where
  "metrics_abs m = sum_list (map (names_abs \<circ> snd) m)"

definition exact_sums :: "OptimizedMetrics \<Rightarrow> bool" where
  "exact_sums m = (metrics_abs m < 2 ^ 53)"

text \<open>The sum, as integers, of all counts under one metric.\<close>

definition names_total :: "Names \<Rightarrow> int" where
  "names_total names = sum_list (map (exact_total \<circ> snd) names)"

subsection \<open>Filtering by year and by year and month\<close>

datatype error = TypeError | SyntaxError | Error string

text \<open>
  \<^verbatim>\<open>monthlyData.filter(pred)\<close>: only an array has the method. On a number, on a plain
  object and on \<^verbatim>\<open>null\<close> the call raises a \<^verbatim>\<open>TypeError\<close>.
\<close>

definition array_filter :: "(MonthlyDataPoint \<Rightarrow> bool) \<Rightarrow> series \<Rightarrow> error + MonthlyDataPoint list" where
  "array_filter pred monthlyData =
     (case monthlyData of TimeSeries ps \<Rightarrow> Inr (filter pred ps) | _ \<Rightarrow> Inl TypeError)"

text \<open>
  \<open>filterMetricsByYear\<close> and \<open>filterMetricsByYearMonth\<close> have the same body up to the
  predicate given to \<^verbatim>\<open>filter\<close>. \<open>filter_names\<close> is the inner loop over
  \<^verbatim>\<open>Object.entries(names)\<close>, its accumulator the object \<^verbatim>\<open>filtered[metric]\<close>;
  \<open>filter_metrics\<close> is the outer loop, its accumulator the object \<^verbatim>\<open>filtered\<close>.
  \<^verbatim>\<open>delete o[k]\<close> is \<open>AList.delete\<close>.

  An assignment \<^verbatim>\<open>o[k] = v\<close> of an object to a key is \<open>assign\<close>: the key keeps its
  place, a new key goes last. The key \<^verbatim>\<open>__proto__\<close> is the exception. When it is not an
  own key of \<^verbatim>\<open>o\<close>, the assignment runs the setter that \<^verbatim>\<open>Object.prototype\<close> has for it:
  \<^verbatim>\<open>v\<close> becomes the prototype of \<^verbatim>\<open>o\<close> and \<^verbatim>\<open>o\<close> gets no entry. The objects that the
  filters build start as \<^verbatim>\<open>{}\<close>, so they never get that entry, whereas an object that
  \<^verbatim>\<open>JSON.parse\<close> returns may have it. After \<^verbatim>\<open>filtered[metric] = {}\<close> the expression
  \<^verbatim>\<open>filtered[metric]\<close> is the object just assigned, also for the metric \<^verbatim>\<open>__proto__\<close>,
  where the getter returns it.

  The result of a filter is modelled by its own entries. Its prototype is
  \<^verbatim>\<open>Object.prototype\<close>, unless a metric of the input is named \<^verbatim>\<open>__proto__\<close>: then it is
  the object built for that metric, and a lookup by key in the result can find the
  entries of that object, which \<open>map_of\<close> does not show (predicate \<open>no_proto_keys\<close>
  excludes such inputs where a theorem looks up a metric in a result).
\<close>

definition assign :: "string \<Rightarrow> 'v \<Rightarrow> (string \<times> 'v) list \<Rightarrow> (string \<times> 'v) list" where
  "assign key v obj =
     (if key = ''__proto__'' \<and> map_of obj key = None then obj else AList.update key v obj)"

fun filter_names :: "(MonthlyDataPoint \<Rightarrow> bool) \<Rightarrow> Names \<Rightarrow> Names \<Rightarrow> error + Names" where
  "filter_names pred [] filtered_metric = Inr filtered_metric"
| "filter_names pred ((name, monthlyData) # rest) filtered_metric =
     (case array_filter pred monthlyData of
        Inl e \<Rightarrow> Inl e
      | Inr yearData \<Rightarrow>
          filter_names pred rest
            (if length yearData > 0 then assign name (TimeSeries yearData) filtered_metric
             else filtered_metric))"

fun filter_metrics ::
  "(MonthlyDataPoint \<Rightarrow> bool) \<Rightarrow> OptimizedMetrics \<Rightarrow> OptimizedMetrics \<Rightarrow> error + OptimizedMetrics" where
  "filter_metrics pred [] filtered = Inr filtered"
| "filter_metrics pred ((metric, names) # rest) filtered =
     (case filter_names pred names [] of
        Inl e \<Rightarrow> Inl e
      | Inr filtered_metric \<Rightarrow>
          (let filtered' = assign metric filtered_metric filtered
           in filter_metrics pred rest
                (if length filtered_metric = 0 then AList.delete metric filtered'
                 else filtered')))"

definition filterMetricsByYear :: "OptimizedMetrics \<Rightarrow> int \<Rightarrow> error + OptimizedMetrics" where
  "filterMetricsByYear optimizedMetrics y =
     filter_metrics (\<lambda>data. year data = y) optimizedMetrics []"


text \<open>
  What the two filters compute on a model of arrays, written without loops: every array is
  cut down to the points that satisfy the predicate, names left with an empty array are
  dropped, metrics left without a name are dropped, names and metrics called
  \<^verbatim>\<open>__proto__\<close> are dropped, and the order of the entries is kept.
\<close>

definition is_array :: "series \<Rightarrow> bool" where
  "is_array s = (case s of TimeSeries ps \<Rightarrow> True | _ \<Rightarrow> False)"

definition all_arrays :: "OptimizedMetrics \<Rightarrow> bool" where
  "all_arrays m = list_all (\<lambda>e. list_all (\<lambda>ne. is_array (snd ne)) (snd e)) m"

definition points_of :: "series \<Rightarrow> MonthlyDataPoint list" where
  "points_of s = (case s of TimeSeries ps \<Rightarrow> ps | _ \<Rightarrow> [])"

definition restrict_names :: "(MonthlyDataPoint \<Rightarrow> bool) \<Rightarrow> Names \<Rightarrow> Names" where
  "restrict_names pred names =
     filter (\<lambda>ne. fst ne \<noteq> ''__proto__'' \<and> points_of (snd ne) \<noteq> [])
       (map (\<lambda>ne. (fst ne, TimeSeries (filter pred (points_of (snd ne))))) names)"

definition restrict_metrics :: "(MonthlyDataPoint \<Rightarrow> bool) \<Rightarrow> OptimizedMetrics \<Rightarrow> OptimizedMetrics" where
  "restrict_metrics pred m =
     filter (\<lambda>e. fst e \<noteq> ''__proto__'' \<and> snd e \<noteq> [])
       (map (\<lambda>e. (fst e, restrict_names pred (snd e))) m)"

definition no_proto_keys :: "OptimizedMetrics \<Rightarrow> bool" where
  "no_proto_keys m =
     list_all (\<lambda>e. fst e \<noteq> ''__proto__'' \<and> list_all (\<lambda>ne. fst ne \<noteq> ''__proto__'') (snd e)) m"

subsection \<open>Numbers as strings\<close>

text \<open>
  \<^verbatim>\<open>String(n)\<close> for an integer \<open>n\<close> of magnitude below \<open>10\<^sup>2\<^sup>1\<close>: the decimal digits,
  after a minus sign when \<open>n\<close> is negative.
\<close>

definition digit_char :: "nat \<Rightarrow> char" where
  "digit_char d = char_of (48 + d)"

fun digits :: "nat \<Rightarrow> string" where
  "digits n = (if n < 10 then [digit_char n] else digits (n div 10) @ [digit_char (n mod 10)])"

declare digits.simps [simp del]

definition show_int :: "int \<Rightarrow> string" where
  "show_int i = (if i < 0 then CHR ''-'' # digits (nat (- i)) else digits (nat i))"

text \<open>\<^verbatim>\<open>s.split(c)\<close> for a separator of one character.\<close>

fun split_on :: "char \<Rightarrow> string \<Rightarrow> string list" where
  "split_on c [] = [[]]"
| "split_on c (x # xs) =
     (if x = c then [] # split_on c xs
      else (case split_on c xs of [] \<Rightarrow> [[x]] | p # ps \<Rightarrow> (x # p) # ps))"

text \<open>
  \<^verbatim>\<open>Number(s)\<close> on a string of decimal digits is its value, and \<^verbatim>\<open>Number('')\<close> is 0.
  \<open>None\<close> stands for every other string: its value (\<^verbatim>\<open>NaN\<close>, or a number written in
  another notation) is outside this model.
\<close>

definition is_digit :: "char \<Rightarrow> bool" where
  "is_digit c = (48 \<le> (of_char c :: nat) \<and> (of_char c :: nat) \<le> 57)"

definition Number_js :: "string \<Rightarrow> int option" where
  "Number_js s =
     (if list_all is_digit s
      then Some (foldl (\<lambda>a c. 10 * a + (int (of_char c) - 48)) 0 s)
      else None)"

subsection \<open>Monthly trends\<close>

text \<open>
  \<^verbatim>\<open>Array.prototype.sort(cmp)\<close> is a stable sort: \<open>a\<close> comes before \<open>b\<close> when
  \<open>cmp a b < 0\<close>, and elements that compare equal keep their order. The algorithm is the
  host's; it is modelled by insertion sort, with which every stable sort agrees when the
  comparator is a consistent ordering.
\<close>

fun insert_by :: "('a \<Rightarrow> 'a \<Rightarrow> int) \<Rightarrow> 'a \<Rightarrow> 'a list \<Rightarrow> 'a list" where
  "insert_by cmp x [] = [x]"
| "insert_by cmp x (y # ys) = (if cmp x y \<le> 0 then x # y # ys else y # insert_by cmp x ys)"

definition js_sort :: "('a \<Rightarrow> 'a \<Rightarrow> int) \<Rightarrow> 'a list \<Rightarrow> 'a list" where
  "js_sort cmp xs = foldr (insert_by cmp) xs []"

text \<open>The key \<^verbatim>\<open>`${data.year}-${data.month}`\<close> of the map \<^verbatim>\<open>trendsMap\<close>.\<close>

definition trend_key :: "int \<Rightarrow> int \<Rightarrow> string" where
  "trend_key y mo = show_int y @ ''-'' @ show_int mo"

text \<open>
  A \<^verbatim>\<open>Map\<close> is modelled by the list of its entries in insertion order;
  \<^verbatim>\<open>trendsMap.set(key, (trendsMap.get(key) || 0) + data.count)\<close> keeps the place of a key
  that is present. \<open>add_points\<close> is the loop over one array, \<open>add_names\<close> the loop over
  the names of the metric, which skips the names not selected and the series that are
  not arrays.
\<close>

fun add_points :: "MonthlyDataPoint list \<Rightarrow> (string \<times> int) list \<Rightarrow> (string \<times> int) list" where
  "add_points [] trendsMap = trendsMap"
| "add_points (data # rest) trendsMap =
     (let key = trend_key (year data) (month data)
      in add_points rest
           (AList.update key
              (js_add (case map_of trendsMap key of None \<Rightarrow> 0 | Some v \<Rightarrow> v) (count data))
              trendsMap))"

fun add_names :: "string option \<Rightarrow> Names \<Rightarrow> (string \<times> int) list \<Rightarrow> (string \<times> int) list" where
  "add_names name [] trendsMap = trendsMap"
| "add_names name ((currentName, monthlyData) # rest) trendsMap =
     add_names name rest
       (if name_selected name currentName
        then (case monthlyData of TimeSeries ps \<Rightarrow> add_points ps trendsMap | _ \<Rightarrow> trendsMap)
        else trendsMap)"

text \<open>
  \<^verbatim>\<open>const [year, month] = key.split('-').map(Number)\<close>: the first two pieces of the key,
  as numbers. \<open>None\<close> when a piece is not a string of digits or there are fewer than two
  pieces (the entry would hold \<^verbatim>\<open>NaN\<close> or \<^verbatim>\<open>undefined\<close>).
\<close>

definition parse_key :: "string \<Rightarrow> (int \<times> int) option" where
  "parse_key key =
     (case map Number_js (split_on CHR ''-'' key) of
        Some y # Some mo # _ \<Rightarrow> Some (y, mo)
      | _ \<Rightarrow> None)"

text \<open>The year that an entry gets from its key.\<close>

definition key_year :: "string \<Rightarrow> int option" where
  "key_year key = map_option fst (parse_key key)"

definition trend_entry :: "string \<times> int \<Rightarrow> MonthlyTrend option" where
  "trend_entry kv =
     (case parse_key (fst kv) of
        Some (y, mo) \<Rightarrow> Some \<lparr>year = y, month = mo, total_count = snd kv\<rparr>
      | None \<Rightarrow> None)"

text \<open>
  The comparator \<^verbatim>\<open>(a, b) => a.year - b.year || a.month - b.month\<close>. The sort reads the
  sign of its value only, and the difference of two doubles has the sign of the exact
  difference, so the differences are written on the integers.
\<close>

definition trend_cmp :: "MonthlyTrend \<Rightarrow> MonthlyTrend \<Rightarrow> int" where
  "trend_cmp a b = (if year a - year b \<noteq> 0 then year a - year b else month a - month b)"

definition getMonthlyTrendsByMetric ::
  "OptimizedMetrics \<Rightarrow> string \<Rightarrow> string option \<Rightarrow> MonthlyTrend list option" where
  "getMonthlyTrendsByMetric optimizedMetrics metric name =
     (case map_of optimizedMetrics metric of
        None \<Rightarrow> Some []
      | Some names \<Rightarrow>
          map_option (js_sort trend_cmp) (those (map trend_entry (add_names name names []))))"

text \<open>The points that the loops of \<open>getMonthlyTrendsByMetric\<close> visit, in the order of the visit.\<close>

definition selected_points :: "string option \<Rightarrow> Names \<Rightarrow> MonthlyDataPoint list" where
  "selected_points name names =
     concat (map (\<lambda>ne. if name_selected name (fst ne) then points_of (snd ne) else []) names)"

definition nonneg_years :: "OptimizedMetrics \<Rightarrow> bool" where
  "nonneg_years m =
     list_all (\<lambda>e. list_all (\<lambda>ne. list_all (\<lambda>d. 0 \<le> year d) (points_of (snd ne))) (snd e)) m"

definition nonneg_months :: "OptimizedMetrics \<Rightarrow> bool" where
  "nonneg_months m =
     list_all (\<lambda>e. list_all (\<lambda>ne. list_all (\<lambda>d. 0 \<le> month d) (points_of (snd ne))) (snd e)) m"

subsection \<open>Names ranked by total\<close>








subsection \<open>Formatting\<close>

text \<open>
  The argument of the formatters, \<^verbatim>\<open>number | undefined | null\<close>. \<open>Num\<close> holds an
  integer of magnitude below \<open>2\<^sup>5\<^sup>3\<close>, which a JavaScript number holds exactly.
\<close>

datatype jsnumber = Undefined | Null | NaN | Num int

text \<open>
  \<^verbatim>\<open>a / b\<close> for positive integers below \<open>2\<^sup>5\<^sup>3\<close>: the IEEE 754 double nearest to the
  quotient. With \<open>2\<^sup>e \<le> a / b < 2\<^sup>e\<^sup>+\<^sup>1\<close> the double is \<open>m / 2\<^sup>s\<close> for \<open>s = 52 - e\<close> and \<open>m\<close>
  the integer nearest to \<open>a / b * 2\<^sup>s\<close>; the result is the pair \<open>(m, s)\<close>.
\<close>

definition double_div :: "int \<Rightarrow> int \<Rightarrow> int \<times> int" where
  "double_div a b =
     (let k = int (bit_length (nat a)) - int (bit_length (nat b));
          e = (if (if 0 \<le> k then b * 2 ^ nat k \<le> a else b \<le> a * 2 ^ nat (- k)) then k else k - 1);
          s = 52 - e
      in (if 0 \<le> s then round_half_even (a * 2 ^ nat s) b
          else round_half_even a (b * 2 ^ nat (- s)), s))"

text \<open>
  \<^verbatim>\<open>x.toFixed(1)\<close> for a double \<open>x = m / 2\<^sup>s\<close> with \<open>0 \<le> x < 10\<^sup>2\<^sup>1\<close>: with \<open>n\<close> the integer
  for which \<open>n / 10 - x\<close> is nearest to zero, the larger one of two, the digits of \<open>n\<close>
  with a point before the last.
\<close>

definition toFixed1 :: "int \<times> int \<Rightarrow> string" where
  "toFixed1 x =
     (let m = fst x; s = snd x;
          n = (if 0 \<le> s then (20 * m + 2 ^ nat s) div 2 ^ nat (s + 1)
               else 10 * m * 2 ^ nat (- s))
      in digits (nat (n div 10)) @ ''.'' @ digits (nat (n mod 10)))"

definition formatNumber :: "jsnumber \<Rightarrow> string" where
  "formatNumber num =
     (case num of
        Num n \<Rightarrow>
          if n \<ge> 10000000 then toFixed1 (double_div n 10000000) @ '' Cr''
          else if n \<ge> 100000 then toFixed1 (double_div n 100000) @ '' L''
          else if n \<ge> 1000 then toFixed1 (double_div n 1000) @ ''K''
          else show_int n
      | _ \<Rightarrow> ''0'')"

text \<open>The rupee sign U+20B9, as the three bytes of its UTF-8 encoding.\<close>

definition rupee :: string where
  "rupee = [CHR 0xE2, CHR 0x82, CHR 0xB9]"

definition formatCurrency :: "jsnumber \<Rightarrow> string" where
  "formatCurrency num =
     (case num of
        Num n \<Rightarrow>
          if n \<ge> 10000000 then rupee @ toFixed1 (double_div n 10000000) @ '' Cr''
          else if n \<ge> 100000 then rupee @ toFixed1 (double_div n 100000) @ '' L''
          else if n \<ge> 1000 then rupee @ toFixed1 (double_div n 1000) @ ''K''
          else rupee @ show_int n
      | _ \<Rightarrow> rupee @ ''0'')"

definition formatCount :: "jsnumber \<Rightarrow> string" where
  "formatCount num =
     (case num of
        Num n \<Rightarrow>
          if n \<ge> 10000000 then toFixed1 (double_div n 10000000) @ '' Cr''
          else if n \<ge> 100000 then toFixed1 (double_div n 100000) @ '' L''
          else if n \<ge> 1000 then toFixed1 (double_div n 1000) @ ''K''
          else show_int n
      | _ \<Rightarrow> ''0'')"

subsection \<open>The document cache and the loaders\<close>

text \<open>
  The state is the module's \<^verbatim>\<open>dataCache\<close> and, as instrumentation, the list of the URLs
  given to \<^verbatim>\<open>fetch\<close> so far. The promise of a fetch is rejected with an error or resolves
  to a response, whose \<open>body\<close> is the document that \<^verbatim>\<open>response.json()\<close> yields, \<open>None\<close>
  when the text is not JSON. Writing to the console is not modelled; the \<^verbatim>\<open>catch\<close> block
  raises the error it caught.
\<close>

record 'd Response =
  ok :: bool
  status :: int
  body :: "'d option"

datatype 'd fetch_outcome = Rejected error | Resolved "'d Response"

record 'd loader_state =
  dataCache :: "string \<rightharpoonup> 'd"
  fetched :: "string list"

text \<open>
  A loader is an \<^verbatim>\<open>async\<close> function with two \<^verbatim>\<open>await\<close>s. A call runs up to the first
  \<^verbatim>\<open>await\<close>, or to the \<^verbatim>\<open>return\<close> of the cached document; it goes on when the promise
  of \<^verbatim>\<open>fetch\<close> settles, up to the second \<^verbatim>\<open>await\<close> or to the \<^verbatim>\<open>throw\<close>; and it goes on
  when the promise of \<^verbatim>\<open>response.json()\<close> settles, up to the \<^verbatim>\<open>return\<close>. Between these
  three pieces other code runs, other calls of a loader included. A request is a call
  with the place where it waits: for the response, with the cache key and the start of
  the message of the error; for the document, with the cache key and the body of the
  response; or settled, with the error raised or the document returned.
\<close>

datatype 'd request =
    AwaitFetch string string
  | AwaitJson string "'d option"
  | Settled "error + 'd"

text \<open>
  From the call to the first \<^verbatim>\<open>await\<close>. The two loaders share this body; they differ in
  the cache key, the URL and the start of the message of the error.
\<close>

definition call_loader ::
  "string \<Rightarrow> string \<Rightarrow> string \<Rightarrow> 'd loader_state \<Rightarrow> 'd request \<times> 'd loader_state" where
  "call_loader cacheKey url failure st =
     (case dataCache st cacheKey of
        Some data \<Rightarrow> (Settled (Inr data), st)
      | None \<Rightarrow> (AwaitFetch cacheKey failure, st\<lparr>fetched := fetched st @ [url]\<rparr>))"

definition loadCountryData :: "'d loader_state \<Rightarrow> 'd request \<times> 'd loader_state" where
  "loadCountryData st =
     call_loader ''country'' ''/data/country.json'' ''Failed to load country data'' st"

definition loadStateData :: "string \<Rightarrow> 'd loader_state \<Rightarrow> 'd request \<times> 'd loader_state" where
  "loadStateData state st =
     call_loader (''state-'' @ state) (''/data/state_'' @ state @ ''.json'')
       (''Failed to load state data for '' @ state) st"

text \<open>From the settling of the fetch to the second \<^verbatim>\<open>await\<close>; the state is not touched.\<close>

definition fetch_settles :: "'d fetch_outcome \<Rightarrow> 'd request \<Rightarrow> 'd request" where
  "fetch_settles outcome r =
     (case r of
        AwaitFetch cacheKey failure \<Rightarrow>
          (case outcome of
             Rejected e \<Rightarrow> Settled (Inl e)
           | Resolved response \<Rightarrow>
               if \<not> ok response
               then Settled (Inl (Error (failure @ '': '' @ show_int (status response))))
               else AwaitJson cacheKey (body response))
      | _ \<Rightarrow> r)"

text \<open>From the settling of \<^verbatim>\<open>response.json()\<close> to the end.\<close>

definition json_settles :: "'d request \<Rightarrow> 'd loader_state \<Rightarrow> 'd request \<times> 'd loader_state" where
  "json_settles r st =
     (case r of
        AwaitJson cacheKey b \<Rightarrow>
          (case b of
             None \<Rightarrow> (Settled (Inl SyntaxError), st)
           | Some data \<Rightarrow> (Settled (Inr data), st\<lparr>dataCache := (dataCache st)(cacheKey \<mapsto> data)\<rparr>))
      | _ \<Rightarrow> (r, st))"

text \<open>
  A page makes requests and the network answers them in any order: the events. The
  requests made so far are kept in a list, where a request is known by its index; each
  event runs one piece of one request on the state that the events before it have left.
  An event for a request that does not wait for it changes nothing.
\<close>

datatype 'd event =
    CallCountry
  | CallState string
  | FetchSettles nat "'d fetch_outcome"
  | JsonSettles nat

fun step :: "'d event \<Rightarrow> 'd request list \<times> 'd loader_state \<Rightarrow> 'd request list \<times> 'd loader_state" where
  "step CallCountry (rs, st) = (case loadCountryData st of (r, st') \<Rightarrow> (rs @ [r], st'))"
| "step (CallState state) (rs, st) = (case loadStateData state st of (r, st') \<Rightarrow> (rs @ [r], st'))"
| "step (FetchSettles i outcome) (rs, st) =
     (if i < length rs then (rs[i := fetch_settles outcome (rs ! i)], st) else (rs, st))"
| "step (JsonSettles i) (rs, st) =
     (if i < length rs then (case json_settles (rs ! i) st of (r, st') \<Rightarrow> (rs[i := r], st'))
      else (rs, st))"

definition run :: "'d event list \<Rightarrow> 'd request list \<times> 'd loader_state \<Rightarrow> 'd request list \<times> 'd loader_state" where
  "run es s = foldl (\<lambda>s e. step e s) s es"

subsection \<open>The filters on a store of objects\<close>

text \<open>
  To state that a filter builds new objects and leaves its argument as it was, the objects
  are placed in a store: a list of cells, where the address of an object is its index and a
  new object goes to the end. A cell is a plain object with its own properties in the
  order of \<^verbatim>\<open>Object.entries\<close>, an array of references to monthly points, or a monthly
  point. The value of a property is a reference, a number or \<^verbatim>\<open>null\<close>.
\<close>

datatype jsvalue = VRef nat | VNum int | VNull

datatype cell =
    ObjectCell "(string \<times> jsvalue) list"
  | ArrayCell "nat list"
  | PointCell MonthlyDataPoint

type_synonym store = "cell list"

definition cell_at :: "store \<Rightarrow> nat \<Rightarrow> cell option" where
  "cell_at h a = (if a < length h then Some (h ! a) else None)"

text \<open>
  The callback of \<^verbatim>\<open>filter\<close> reads \<^verbatim>\<open>data.year\<close> and \<^verbatim>\<open>data.month\<close>; on an element
  that is not a monthly point they are \<^verbatim>\<open>undefined\<close> and the comparison fails.
\<close>

definition point_satisfies :: "(MonthlyDataPoint \<Rightarrow> bool) \<Rightarrow> store \<Rightarrow> nat \<Rightarrow> bool" where
  "point_satisfies pred h a = (case cell_at h a of Some (PointCell d) \<Rightarrow> pred d | _ \<Rightarrow> False)"

text \<open>
  \<^verbatim>\<open>monthlyData.filter(pred)\<close> makes a new array of the elements that satisfy the
  predicate; the elements themselves are shared with the old array.
\<close>

definition store_array_filter ::
  "(MonthlyDataPoint \<Rightarrow> bool) \<Rightarrow> jsvalue \<Rightarrow> store \<Rightarrow> (error + nat) \<times> store" where
  "store_array_filter pred monthlyData h =
     (case monthlyData of
        VRef a \<Rightarrow>
          (case cell_at h a of
             Some (ArrayCell elems) \<Rightarrow>
               (Inr (length h), h @ [ArrayCell (filter (point_satisfies pred h) elems)])
           | _ \<Rightarrow> (Inl TypeError, h))
      | _ \<Rightarrow> (Inl TypeError, h))"

definition array_length :: "store \<Rightarrow> nat \<Rightarrow> nat" where
  "array_length h a = (case cell_at h a of Some (ArrayCell elems) \<Rightarrow> length elems | _ \<Rightarrow> 0)"

text \<open>
  \<^verbatim>\<open>obj[key] = v\<close> for an object \<^verbatim>\<open>v\<close>, \<^verbatim>\<open>delete obj[key]\<close> and
  \<^verbatim>\<open>Object.keys(obj).length\<close> on a plain object. A cell holds the own entries of its
  object; the prototype, which \<^verbatim>\<open>obj['__proto__'] = v\<close> changes, is not part of it.
\<close>

definition set_property :: "nat \<Rightarrow> string \<Rightarrow> jsvalue \<Rightarrow> store \<Rightarrow> store" where
  "set_property obj key v h =
     (case cell_at h obj of
        Some (ObjectCell props) \<Rightarrow> h[obj := ObjectCell (assign key v props)]
      | _ \<Rightarrow> h)"

definition delete_property :: "nat \<Rightarrow> string \<Rightarrow> store \<Rightarrow> store" where
  "delete_property obj key h =
     (case cell_at h obj of
        Some (ObjectCell props) \<Rightarrow> h[obj := ObjectCell (AList.delete key props)]
      | _ \<Rightarrow> h)"

definition property_count :: "store \<Rightarrow> nat \<Rightarrow> nat" where
  "property_count h obj = (case cell_at h obj of Some (ObjectCell props) \<Rightarrow> length props | _ \<Rightarrow> 0)"

text \<open>
  \<^verbatim>\<open>Object.entries(v)\<close>: the properties of a plain object; the indices and elements of an
  array; the three fields of a monthly point; nothing for a number; a \<^verbatim>\<open>TypeError\<close> for
  \<^verbatim>\<open>null\<close>.
\<close>

definition own_entries :: "store \<Rightarrow> jsvalue \<Rightarrow> error + (string \<times> jsvalue) list" where
  "own_entries h v =
     (case v of
        VRef a \<Rightarrow>
          (case cell_at h a of
             Some (ObjectCell props) \<Rightarrow> Inr props
           | Some (ArrayCell elems) \<Rightarrow>
               Inr (zip (map (\<lambda>i. show_int (int i)) [0..<length elems]) (map VRef elems))
           | Some (PointCell d) \<Rightarrow>
               Inr [(''year'', VNum (year d)), (''month'', VNum (month d)),
                    (''count'', VNum (count d))]
           | None \<Rightarrow> Inl TypeError)
      | VNum n \<Rightarrow> Inr []
      | VNull \<Rightarrow> Inl TypeError)"

text \<open>
  The inner loop, over the entries of \<^verbatim>\<open>names\<close>: \<open>filtered_metric\<close> is the address of
  the object \<^verbatim>\<open>filtered[metric]\<close>. The outer loop, over the entries of
  \<^verbatim>\<open>optimizedMetrics\<close>: \<open>filtered\<close> is the address of the object \<^verbatim>\<open>filtered\<close>. Both
  return the error raised, if any, and the store.
\<close>

fun store_filter_names ::
  "(MonthlyDataPoint \<Rightarrow> bool) \<Rightarrow> (string \<times> jsvalue) list \<Rightarrow> nat \<Rightarrow> store \<Rightarrow> error option \<times> store" where
  "store_filter_names pred [] filtered_metric h = (None, h)"
| "store_filter_names pred ((name, monthlyData) # rest) filtered_metric h =
     (case store_array_filter pred monthlyData h of
        (Inl e, h') \<Rightarrow> (Some e, h')
      | (Inr yearData, h') \<Rightarrow>
          store_filter_names pred rest filtered_metric
            (if array_length h' yearData > 0
             then set_property filtered_metric name (VRef yearData) h'
             else h'))"

fun store_filter_metrics ::
  "(MonthlyDataPoint \<Rightarrow> bool) \<Rightarrow> (string \<times> jsvalue) list \<Rightarrow> nat \<Rightarrow> store \<Rightarrow> error option \<times> store" where
  "store_filter_metrics pred [] filtered h = (None, h)"
| "store_filter_metrics pred ((metric, names) # rest) filtered h =
     (let filtered_metric = length h;
          h1 = set_property filtered metric (VRef filtered_metric) (h @ [ObjectCell []])
      in case own_entries h1 names of
           Inl e \<Rightarrow> (Some e, h1)
         | Inr entries \<Rightarrow>
             (case store_filter_names pred entries filtered_metric h1 of
                (Some e, h2) \<Rightarrow> (Some e, h2)
              | (None, h2) \<Rightarrow>
                  store_filter_metrics pred rest filtered
                    (if property_count h2 filtered_metric = 0
                     then delete_property filtered metric h2
                     else h2)))"

definition store_filter ::
  "(MonthlyDataPoint \<Rightarrow> bool) \<Rightarrow> nat \<Rightarrow> store \<Rightarrow> (error + nat) \<times> store" where
  "store_filter pred optimizedMetrics h =
     (let filtered = length h; h0 = h @ [ObjectCell []]
      in case own_entries h0 (VRef optimizedMetrics) of
           Inl e \<Rightarrow> (Inl e, h0)
         | Inr entries \<Rightarrow>
             (case store_filter_metrics pred entries filtered h0 of
                (Some e, h') \<Rightarrow> (Inl e, h')
              | (None, h') \<Rightarrow> (Inr filtered, h')))"

definition store_filterMetricsByYear :: "nat \<Rightarrow> int \<Rightarrow> store \<Rightarrow> (error + nat) \<times> store" where
  "store_filterMetricsByYear optimizedMetrics y h =
     store_filter (\<lambda>data. year data = y) optimizedMetrics h"

















subsection \<open>Example models\<close>

definition empty_loader_state :: "string loader_state" where
  "empty_loader_state = \<lparr>dataCache = Map.empty, fetched = []\<rparr>"

definition not_found :: "string Response" where
  "not_found = \<lparr>ok = False, status = 404, body = None\<rparr>"

definition found :: "string Response" where
  "found = \<lparr>ok = True, status = 200, body = Some ''{}''\<rparr>"

definition example_metrics :: OptimizedMetrics where
  "example_metrics =
     [(''Transaction'',
        [(''X'', TimeSeries [\<lparr>year = 2022, month = 1, count = 10\<rparr>,
                             \<lparr>year = 2022, month = 2, count = 20\<rparr>,
                             \<lparr>year = 2023, month = 1, count = 5\<rparr>]),
         (''Y'', TimeSeries [\<lparr>year = 2022, month = 2, count = 7\<rparr>])]),
      (''Revenue (Tax)'', [(''MV Tax'', TimeSeries [\<lparr>year = 2023, month = 4, count = 9\<rparr>])])]"



definition large_metrics :: OptimizedMetrics where
  "large_metrics =
     [(''A'', [(''a'', Scalar 9007199254740992)]),
      (''B'', [(''b'', Scalar 1), (''c'', Scalar 1)])]"

definition large_counts :: OptimizedMetrics where
  "large_counts =
     [(''Transaction'',
        [(''X'', TimeSeries [\<lparr>year = 2022, month = 1, count = 9007199254740992\<rparr>,
                             \<lparr>year = 2022, month = 2, count = 1\<rparr>]),
         (''Y'', TimeSeries [\<lparr>year = 2022, month = 2, count = 1\<rparr>])])]"

definition mixed_metrics :: OptimizedMetrics where
  "mixed_metrics =
     [(''Transaction'',
        [(''X'', TimeSeries [\<lparr>year = 2022, month = 1, count = 10\<rparr>,
                             \<lparr>year = 2022, month = 2, count = 20\<rparr>,
                             \<lparr>year = 2023, month = 1, count = 5\<rparr>]),
         (''Y'', MonthTotals [(''2022-01'', 3), (''2022-02'', 4)])]),
      (''Revenue (Tax)'', [(''MV Tax'', Scalar 7), (''Cess'', OtherShape)])]"

section \<open>Totals\<close>

lemma js_add_exact: "\<bar>a + b\<bar> < 2 ^ 53 \<Longrightarrow> js_add a b = a + b"
  by (simp add: js_add_def round53_def)

lemma foldl_js_add:
  assumes "\<And>x. x \<in> set xs \<Longrightarrow> \<bar>f x\<bar> \<le> w x" and "\<bar>a\<bar> + sum_list (map w xs) < 2 ^ 53"
  shows "foldl (\<lambda>acc x. js_add acc (f x)) a xs = a + sum_list (map f xs)"
  using assms
proof (induction xs arbitrary: a)
  case Nil
  then show ?case by simp
next
  case (Cons x xs)
  have w: "0 \<le> w y" if "y \<in> set (x # xs)" for y
    using Cons.prems(1) [OF that] by linarith
  have rest: "0 \<le> sum_list (map w xs)"
    by (rule sum_list_nonneg) (use w in auto)
  have fx: "\<bar>f x\<bar> \<le> w x" using Cons.prems(1) by simp
  have "\<bar>a + f x\<bar> < 2 ^ 53" using Cons.prems(2) fx rest by simp
  then have step: "js_add a (f x) = a + f x" by (rule js_add_exact)
  have "foldl (\<lambda>acc x. js_add acc (f x)) (a + f x) xs = (a + f x) + sum_list (map f xs)"
  proof (rule Cons.IH)
    show "\<bar>f y\<bar> \<le> w y" if "y \<in> set xs" for y using Cons.prems(1) that by simp
    show "\<bar>a + f x\<bar> + sum_list (map w xs) < 2 ^ 53" using Cons.prems(2) fx by simp
  qed
  with step show ?case by simp
qed

lemma series_abs_nonneg: "0 \<le> series_abs s"
  unfolding series_abs_def by (rule sum_list_nonneg) auto

lemma names_abs_nonneg: "0 \<le> names_abs names"
  unfolding names_abs_def by (rule sum_list_nonneg) (auto simp: series_abs_nonneg)

lemma metrics_abs_nonneg: "0 \<le> metrics_abs m"
  unfolding metrics_abs_def by (rule sum_list_nonneg) (auto simp: names_abs_nonneg)

lemma abs_exact_total: "\<bar>exact_total s\<bar> \<le> series_abs s"
  unfolding exact_total_def series_abs_def by (rule sum_list_abs)

lemma series_total_exact: "series_abs s < 2 ^ 53 \<Longrightarrow> series_total s = exact_total s"
proof (cases s)
  case (TimeSeries ps)
  assume "series_abs s < 2 ^ 53"
  then have "\<bar>0\<bar> + sum_list (map (\<lambda>d. \<bar>count d\<bar>) ps) < 2 ^ 53"
    by (simp add: TimeSeries series_abs_def series_counts_def comp_def)
  then have "foldl (\<lambda>acc d. js_add acc (count d)) 0 ps = 0 + sum_list (map count ps)"
    by (intro foldl_js_add) simp_all
  then show ?thesis by (simp add: TimeSeries exact_total_def series_counts_def)
next
  case (MonthTotals kv)
  assume "series_abs s < 2 ^ 53"
  then have "\<bar>0\<bar> + sum_list (map abs (map snd kv)) < 2 ^ 53"
    by (simp add: MonthTotals series_abs_def series_counts_def)
  then have "foldl (\<lambda>acc c. js_add acc c) 0 (map snd kv) = 0 + sum_list (map (\<lambda>c. c) (map snd kv))"
    by (intro foldl_js_add) simp_all
  then show ?thesis by (simp add: MonthTotals exact_total_def series_counts_def)
qed (simp_all add: exact_total_def series_counts_def)

lemma add_series_exact:
  assumes "\<bar>a\<bar> + series_abs s < 2 ^ 53"
  shows "add_series a s = a + exact_total s"
proof (cases "s = OtherShape")
  case True
  then show ?thesis by (simp add: add_series_def exact_total_def series_counts_def)
next
  case False
  have "series_abs s < 2 ^ 53" using assms by linarith
  then have st: "series_total s = exact_total s" by (rule series_total_exact)
  have "\<bar>a + exact_total s\<bar> < 2 ^ 53" using assms abs_exact_total [of s] by linarith
  then have "js_add a (exact_total s) = a + exact_total s" by (rule js_add_exact)
  with st False show ?thesis by (cases s) (simp_all add: add_series_def)
qed

lemma foldl_add_series:
  "\<bar>a\<bar> + names_abs names < 2 ^ 53 \<Longrightarrow>
   foldl (\<lambda>total (currentName, monthlyData).
            if name_selected name currentName then add_series total monthlyData else total)
     a names
   = a + sum_list (map (exact_total \<circ> snd) (filter (\<lambda>e. name_selected name (fst e)) names))"
proof (induction names arbitrary: a)
  case Nil
  then show ?case by simp
next
  case (Cons e names)
  obtain n s where e: "e = (n, s)" by (cases e)
  have b: "\<bar>a\<bar> + series_abs s + names_abs names < 2 ^ 53"
    using Cons.prems by (simp add: e names_abs_def)
  show ?case
  proof (cases "name_selected name n")
    case True
    have step: "add_series a s = a + exact_total s"
      using b names_abs_nonneg [of names] by (intro add_series_exact) linarith
    have "\<bar>a + exact_total s\<bar> + names_abs names < 2 ^ 53"
      using b abs_exact_total [of s] by linarith
    from Cons.IH [OF this] step True show ?thesis by (simp add: e)
  next
    case False
    have "\<bar>a\<bar> + names_abs names < 2 ^ 53" using b series_abs_nonneg [of s] by linarith
    from Cons.IH [OF this] False show ?thesis by (simp add: e)
  qed
qed

lemma foldl_add_series_all:
  "\<bar>a\<bar> + names_abs names < 2 ^ 53 \<Longrightarrow>
   foldl (\<lambda>total monthlyData. add_series total monthlyData) a (map snd names)
   = a + names_total names"
proof (induction names arbitrary: a)
  case Nil
  then show ?case by (simp add: names_total_def)
next
  case (Cons e names)
  have b: "\<bar>a\<bar> + series_abs (snd e) + names_abs names < 2 ^ 53"
    using Cons.prems by (simp add: names_abs_def)
  have step: "add_series a (snd e) = a + exact_total (snd e)"
    using b names_abs_nonneg [of names] by (intro add_series_exact) linarith
  have "\<bar>a + exact_total (snd e)\<bar> + names_abs names < 2 ^ 53"
    using b abs_exact_total [of "snd e"] by linarith
  from Cons.IH [OF this] step show ?case by (simp add: names_total_def)
qed

lemma abs_names_total: "\<bar>names_total names\<bar> \<le> names_abs names"
proof (induction names)
  case Nil
  then show ?case by (simp add: names_total_def names_abs_def)
next
  case (Cons e names)
  then show ?case
    using abs_exact_total [of "snd e"] by (simp add: names_total_def names_abs_def)
qed

lemma calculateTotalRecords_sum:
  assumes "exact_sums m"
  shows "calculateTotalRecords m = sum_list (map (names_total \<circ> snd) m)"
proof -
  have "\<bar>a\<bar> + metrics_abs m < 2 ^ 53 \<Longrightarrow>
        foldl (\<lambda>total names.
              foldl (\<lambda>total monthlyData. add_series total monthlyData) total (map snd names))
          a (map snd m) = a + sum_list (map (names_total \<circ> snd) m)" for a
  proof (induction m arbitrary: a)
    case Nil
    then show ?case by simp
  next
    case (Cons e m)
    have rest: "0 \<le> metrics_abs m" by (rule metrics_abs_nonneg)
    have b: "\<bar>a\<bar> + names_abs (snd e) + metrics_abs m < 2 ^ 53"
      using Cons.prems by (simp add: metrics_abs_def)
    have inner: "foldl (\<lambda>total monthlyData. add_series total monthlyData) a (map snd (snd e))
                   = a + names_total (snd e)"
      using b rest by (intro foldl_add_series_all) linarith
    have "\<bar>a + names_total (snd e)\<bar> + metrics_abs m < 2 ^ 53"
      using b abs_names_total [of "snd e"] by linarith
    from Cons.IH [OF this] inner show ?case by simp
  qed
  from this [of 0] assms show ?thesis by (simp add: calculateTotalRecords_def exact_sums_def)
qed

lemma calculateTotalsByMetric_present:
  "map_of m metric = Some names \<Longrightarrow> names_abs names < 2 ^ 53 \<Longrightarrow>
   calculateTotalsByMetric m metric name
     = sum_list (map (exact_total \<circ> snd) (filter (\<lambda>e. name_selected name (fst e)) names))"
  using foldl_add_series [of 0 names name] by (simp add: calculateTotalsByMetric_def)

lemma calculateTotalsByMetric_all:
  "map_of m metric = Some names \<Longrightarrow> names_abs names < 2 ^ 53 \<Longrightarrow>
   calculateTotalsByMetric m metric None = names_total names"
  by (simp add: calculateTotalsByMetric_present name_selected_def names_total_def)

lemma calculateTotalsByMetric_absent:
  "map_of m metric = None \<Longrightarrow> calculateTotalsByMetric m metric name = 0"
  by (simp add: calculateTotalsByMetric_def)

lemma names_abs_le_metrics_abs: "e \<in> set m \<Longrightarrow> names_abs (snd e) \<le> metrics_abs m"
proof (induction m)
  case Nil
  then show ?case by simp
next
  case (Cons x m)
  have "0 \<le> metrics_abs m" by (rule metrics_abs_nonneg)
  with Cons names_abs_nonneg [of "snd x"] show ?case by (auto simp: metrics_abs_def)
qed

lemmas sum_eval =
  js_add_def round53_def round_half_even_def bit_length.simps add_series_def Let_def

text \<open>
  Claim C1, as stated: for every model \<open>calculateTotalRecords\<close> equals the sum of the
  totals per metric. The numbers are doubles. With the counts \<open>2\<^sup>5\<^sup>3\<close> under one metric
  and 1 and 1 under another, the running total of \<open>calculateTotalRecords\<close> stays at
  \<open>2\<^sup>5\<^sup>3\<close>, since \<open>2\<^sup>5\<^sup>3 + 1\<close> is rounded to \<open>2\<^sup>5\<^sup>3\<close>, while the totals of the two metrics
  are \<open>2\<^sup>5\<^sup>3\<close> and 2.
\<close>

theorem record_total_loses_small_counts_beyond_2_53:
  "calculateTotalRecords large_metrics = 9007199254740992 \<and>
   calculateTotalsByMetric large_metrics ''A'' None = 9007199254740992 \<and>
   calculateTotalsByMetric large_metrics ''B'' None = 2 \<and>
   map fst large_metrics = [''A'', ''B''] \<and>
   calculateTotalRecords large_metrics
     \<noteq> sum_list (map (\<lambda>metric. calculateTotalsByMetric large_metrics metric None)
                   (map fst large_metrics))"
  by (simp add: large_metrics_def calculateTotalRecords_def calculateTotalsByMetric_def
      name_selected_def sum_eval)

text \<open>
  Claim C1, amended. For every model in which the magnitudes of all counts add up to less
  than \<open>2\<^sup>5\<^sup>3\<close>, whatever the encoding of its series (array of monthly points, month-key
  object, bare number), \<open>calculateTotalRecords\<close> equals the sum, over the metrics
  present in the model, of \<open>calculateTotalsByMetric\<close> called without a name.
\<close>

theorem record_total_is_sum_of_metric_totals:
  assumes "distinct (map fst m)" and "exact_sums m"
  shows "calculateTotalRecords m
           = sum_list (map (\<lambda>metric. calculateTotalsByMetric m metric None) (map fst m))"
proof -
  have "map (\<lambda>metric. calculateTotalsByMetric m metric None) (map fst m)
          = map (names_total \<circ> snd) m"
  proof -
    have "calculateTotalsByMetric m (fst e) None = names_total (snd e)" if "e \<in> set m" for e
    proof -
      have "(fst e, snd e) \<in> set m" using that by simp
      with assms(1) have "map_of m (fst e) = Some (snd e)"
        by (rule map_of_is_SomeI)
      moreover have "names_abs (snd e) < 2 ^ 53"
        using names_abs_le_metrics_abs [OF that] assms(2) by (simp add: exact_sums_def)
      ultimately show ?thesis by (rule calculateTotalsByMetric_all)
    qed
    then show ?thesis by (simp add: map_eq_conv)
  qed
  then show ?thesis by (simp only: calculateTotalRecords_sum [OF assms(2)])
qed

lemma exact_sums_mixed_metrics: "exact_sums mixed_metrics"
  by (simp add: exact_sums_def metrics_abs_def names_abs_def series_abs_def series_counts_def
      mixed_metrics_def)

theorem record_total_is_sum_of_metric_totals_witness:
  "distinct (map fst mixed_metrics) \<and> exact_sums mixed_metrics \<and>
   calculateTotalRecords mixed_metrics
     = sum_list (map (\<lambda>metric. calculateTotalsByMetric mixed_metrics metric None)
                   (map fst mixed_metrics))"
proof (intro conjI)
  show d: "distinct (map fst mixed_metrics)"
    by (simp add: mixed_metrics_def)
  show "exact_sums mixed_metrics" by (rule exact_sums_mixed_metrics)
  show "calculateTotalRecords mixed_metrics
     = sum_list (map (\<lambda>metric. calculateTotalsByMetric mixed_metrics metric None)
                   (map fst mixed_metrics))"
    by (rule record_total_is_sum_of_metric_totals [OF d exact_sums_mixed_metrics])
qed

section \<open>The filters\<close>

lemma update_fresh_key: "k \<notin> fst ` set al \<Longrightarrow> AList.update k v al = al @ [(k, v)]"
  by (induction al) auto

lemma delete_last_fresh_key: "k \<notin> fst ` set al \<Longrightarrow> AList.delete k (al @ [(k, v)]) = al"
  by (induction al) auto

lemma delete_fresh_key: "k \<notin> fst ` set al \<Longrightarrow> AList.delete k al = al"
  by (induction al) auto

lemma assign_fresh_key:
  "k \<notin> fst ` set al \<Longrightarrow> assign k v al = (if k = ''__proto__'' then al else al @ [(k, v)])"
  by (simp add: assign_def update_fresh_key map_of_eq_None_iff)

lemma restrict_names_Nil [simp]: "restrict_names pred [] = []"
  by (simp add: restrict_names_def)

lemma restrict_names_Cons [simp]:
  "restrict_names pred (ne # names) =
     (if fst ne = ''__proto__'' \<or> filter pred (points_of (snd ne)) = []
      then restrict_names pred names
      else (fst ne, TimeSeries (filter pred (points_of (snd ne)))) # restrict_names pred names)"
  by (simp add: restrict_names_def points_of_def)

lemma restrict_metrics_Nil [simp]: "restrict_metrics pred [] = []"
  by (simp add: restrict_metrics_def)

lemma restrict_metrics_Cons [simp]:
  "restrict_metrics pred (e # m) =
     (if fst e = ''__proto__'' \<or> restrict_names pred (snd e) = [] then restrict_metrics pred m
      else (fst e, restrict_names pred (snd e)) # restrict_metrics pred m)"
  by (simp add: restrict_metrics_def)


lemma keys_restrict_metrics: "fst ` set (restrict_metrics pred m) \<subseteq> fst ` set m"
  by (induction m) auto

lemma filter_names_arrays:
  "list_all (\<lambda>ne. is_array (snd ne)) names \<Longrightarrow> distinct (map fst names) \<Longrightarrow>
   fst ` set acc \<inter> fst ` set names = {} \<Longrightarrow>
   filter_names pred names acc = Inr (acc @ restrict_names pred names)"
proof (induction names arbitrary: acc)
  case Nil
  then show ?case by simp
next
  case (Cons ne names)
  obtain name s where ne: "ne = (name, s)" by (cases ne)
  from Cons.prems ne obtain ps where s: "s = TimeSeries ps"
    by (cases s) (simp_all add: is_array_def)
  have fresh: "name \<notin> fst ` set acc" using Cons.prems(3) ne by auto
  show ?case
  proof (cases "name = ''__proto__'' \<or> filter pred ps = []")
    case True
    have "filter_names pred names acc = Inr (acc @ restrict_names pred names)"
      using Cons.prems ne by (intro Cons.IH) auto
    with True fresh show ?thesis
      by (auto simp: ne s array_filter_def points_of_def assign_fresh_key)
  next
    case False
    have "filter_names pred names (acc @ [(name, TimeSeries (filter pred ps))])
            = Inr ((acc @ [(name, TimeSeries (filter pred ps))]) @ restrict_names pred names)"
      using Cons.prems ne by (intro Cons.IH) auto
    with False fresh show ?thesis
      by (simp add: ne s array_filter_def points_of_def assign_fresh_key)
  qed
qed

lemma filter_names_not_arrays:
  "\<not> list_all (\<lambda>ne. is_array (snd ne)) names \<Longrightarrow> filter_names pred names acc = Inl TypeError"
proof (induction names arbitrary: acc)
  case Nil
  then show ?case by simp
next
  case (Cons ne names)
  obtain name s where ne: "ne = (name, s)" by (cases ne)
  show ?case
  proof (cases s)
    case (TimeSeries ps)
    with Cons.prems ne have "\<not> list_all (\<lambda>ne. is_array (snd ne)) names"
      by (simp add: is_array_def)
    then show ?thesis using Cons.IH by (simp add: ne TimeSeries array_filter_def)
  qed (simp_all add: ne array_filter_def)
qed

lemma filter_names_error: "filter_names pred names acc = Inl e \<Longrightarrow> e = TypeError"
proof (induction names arbitrary: acc)
  case Nil
  then show ?case by simp
next
  case (Cons ne names)
  obtain name s where ne: "ne = (name, s)" by (cases ne)
  show ?case
  proof (cases s)
    case (TimeSeries ps)
    with Cons.prems ne show ?thesis
      by (auto simp: array_filter_def dest: Cons.IH split: if_splits)
  qed (use Cons.prems ne in \<open>simp_all add: array_filter_def\<close>)
qed

lemma filter_metrics_arrays:
  "all_arrays m \<Longrightarrow> wf_metrics m \<Longrightarrow> fst ` set acc \<inter> fst ` set m = {} \<Longrightarrow>
   filter_metrics pred m acc = Inr (acc @ restrict_metrics pred m)"
proof (induction m arbitrary: acc)
  case Nil
  then show ?case by simp
next
  case (Cons e m)
  obtain metric names where e: "e = (metric, names)" by (cases e)
  have inner: "filter_names pred names [] = Inr (restrict_names pred names)"
    using Cons.prems(1,2) e filter_names_arrays [of names "[]" pred]
    by (simp add: all_arrays_def wf_metrics_def)
  have fresh: "metric \<notin> fst ` set acc" using Cons.prems(3) e by auto
  have rest: "all_arrays m" "wf_metrics m"
    using Cons.prems(1,2) by (simp_all add: all_arrays_def wf_metrics_def)
  show ?case
  proof (cases "metric = ''__proto__'' \<or> restrict_names pred names = []")
    case True
    have "filter_metrics pred m acc = Inr (acc @ restrict_metrics pred m)"
      using Cons.prems(3) by (intro Cons.IH rest) auto
    with True fresh show ?thesis
      by (auto simp: e inner assign_fresh_key delete_last_fresh_key delete_fresh_key)
  next
    case False
    have "filter_metrics pred m (acc @ [(metric, restrict_names pred names)])
            = Inr ((acc @ [(metric, restrict_names pred names)]) @ restrict_metrics pred m)"
      using Cons.prems(2,3) e by (intro Cons.IH rest) (auto simp: wf_metrics_def)
    with False fresh show ?thesis
      by (simp add: e inner assign_fresh_key)
  qed
qed

lemma filter_metrics_not_arrays:
  "\<not> all_arrays m \<Longrightarrow> filter_metrics pred m acc = Inl TypeError"
proof (induction m arbitrary: acc)
  case Nil
  then show ?case by (simp add: all_arrays_def)
next
  case (Cons e m)
  obtain metric names where e: "e = (metric, names)" by (cases e)
  show ?case
  proof (cases "list_all (\<lambda>ne. is_array (snd ne)) names")
    case True
    with Cons.prems e have "\<not> all_arrays m" by (simp add: all_arrays_def)
    then have "filter_metrics pred m acc' = Inl TypeError" for acc' by (rule Cons.IH)
    then show ?thesis
      by (cases "filter_names pred names []") (simp_all add: e Let_def filter_names_error)
  next
    case False
    then show ?thesis by (simp add: e filter_names_not_arrays)
  qed
qed

lemma filter_metrics_char:
  "wf_metrics m \<Longrightarrow>
   filter_metrics pred m [] = (if all_arrays m then Inr (restrict_metrics pred m) else Inl TypeError)"
  using filter_metrics_arrays [of m "[]" pred] filter_metrics_not_arrays [of m pred "[]"]
  by simp







lemma filterMetricsByYear_char:
  "wf_metrics m \<Longrightarrow>
   filterMetricsByYear m y
     = (if all_arrays m then Inr (restrict_metrics (\<lambda>d. year d = y) m) else Inl TypeError)"
  by (simp add: filterMetricsByYear_def filter_metrics_char)


lemma wf_example_metrics: "wf_metrics example_metrics"
  by (simp add: wf_metrics_def example_metrics_def)

lemma all_arrays_example_metrics: "all_arrays example_metrics"
  by (simp add: all_arrays_def example_metrics_def is_array_def)

text \<open>
  An entry whose key is \<^verbatim>\<open>__proto__\<close> is not copied: the assignment changes the prototype
  of the object under construction and gives it no entry.
\<close>

lemma filters_drop_proto_entries:
  "filterMetricsByYear
     [(''Transaction'',
        [(''__proto__'', TimeSeries [\<lparr>year = 2022, month = 1, count = 10\<rparr>]),
         (''X'', TimeSeries [\<lparr>year = 2022, month = 2, count = 20\<rparr>])]),
      (''__proto__'', [(''Y'', TimeSeries [\<lparr>year = 2022, month = 1, count = 5\<rparr>])])] 2022
   = Inr [(''Transaction'', [(''X'', TimeSeries [\<lparr>year = 2022, month = 2, count = 20\<rparr>])])]"
  by (simp add: filterMetricsByYear_def array_filter_def assign_def)






section \<open>The filters on a store of objects\<close>





































section \<open>Sorting with a comparator\<close>

lemma mset_insert_by: "mset (insert_by cmp x xs) = add_mset x (mset xs)"
  by (induction xs) simp_all

lemma mset_js_sort: "mset (js_sort cmp xs) = mset xs"
  by (induction xs) (simp_all add: js_sort_def mset_insert_by)

lemma set_insert_by: "set (insert_by cmp x xs) = insert x (set xs)"
  using mset_insert_by [of cmp x xs] by (metis set_mset_add_mset_insert set_mset_mset)

lemma set_js_sort: "set (js_sort cmp xs) = set xs"
  using mset_js_sort [of cmp xs] by (metis set_mset_mset)

lemma sorted_insert_by:
  assumes total: "\<And>a b. a \<in> A \<Longrightarrow> b \<in> A \<Longrightarrow> cmp a b \<le> 0 \<or> cmp b a \<le> 0"
    and trans: "\<And>a b c. a \<in> A \<Longrightarrow> b \<in> A \<Longrightarrow> c \<in> A \<Longrightarrow>
                  cmp a b \<le> 0 \<Longrightarrow> cmp b c \<le> 0 \<Longrightarrow> cmp a c \<le> 0"
  shows "x \<in> A \<Longrightarrow> set xs \<subseteq> A \<Longrightarrow> sorted_wrt (\<lambda>a b. cmp a b \<le> 0) xs \<Longrightarrow>
         sorted_wrt (\<lambda>a b. cmp a b \<le> 0) (insert_by cmp x xs)"
proof (induction xs)
  case Nil
  then show ?case by simp
next
  case (Cons y ys)
  show ?case
  proof (cases "cmp x y \<le> 0")
    case True
    have "cmp x z \<le> 0" if "z \<in> set ys" for z
    proof -
      from that Cons.prems(3) have "cmp y z \<le> 0" by simp
      with True show ?thesis using trans [of x y z] Cons.prems(1,2) that by auto
    qed
    with True Cons.prems(3) show ?thesis by simp
  next
    case False
    with total [of x y] Cons.prems(1,2) have "cmp y x \<le> 0" by auto
    moreover have "sorted_wrt (\<lambda>a b. cmp a b \<le> 0) (insert_by cmp x ys)"
      using Cons.prems by (intro Cons.IH) auto
    ultimately show ?thesis using False Cons.prems(3) by (auto simp: set_insert_by)
  qed
qed

lemma sorted_js_sort:
  assumes total: "\<And>a b. a \<in> set xs \<Longrightarrow> b \<in> set xs \<Longrightarrow> cmp a b \<le> 0 \<or> cmp b a \<le> 0"
    and trans: "\<And>a b c. a \<in> set xs \<Longrightarrow> b \<in> set xs \<Longrightarrow> c \<in> set xs \<Longrightarrow>
                  cmp a b \<le> 0 \<Longrightarrow> cmp b c \<le> 0 \<Longrightarrow> cmp a c \<le> 0"
  shows "sorted_wrt (\<lambda>a b. cmp a b \<le> 0) (js_sort cmp xs)"
proof -
  have "set ys \<subseteq> set xs \<Longrightarrow> sorted_wrt (\<lambda>a b. cmp a b \<le> 0) (js_sort cmp ys)" for ys
  proof (induction ys)
    case Nil
    then show ?case by (simp add: js_sort_def)
  next
    case (Cons y ys)
    have "sorted_wrt (\<lambda>a b. cmp a b \<le> 0) (insert_by cmp y (js_sort cmp ys))"
    proof (rule sorted_insert_by [where A = "set xs"])
      show "y \<in> set xs" using Cons.prems by simp
      show "set (js_sort cmp ys) \<subseteq> set xs" using Cons.prems by (simp add: set_js_sort)
      show "sorted_wrt (\<lambda>a b. cmp a b \<le> 0) (js_sort cmp ys)"
        using Cons.prems by (intro Cons.IH) simp
    qed (use total trans in blast)+
    then show ?case by (simp add: js_sort_def)
  qed
  then show ?thesis by simp
qed


section \<open>The keys of the trends map\<close>

lemma digit_char_simps:
  "digit_char 0 = CHR ''0''" "digit_char (Suc 0) = CHR ''1''" "digit_char 2 = CHR ''2''"
  "digit_char 3 = CHR ''3''" "digit_char 4 = CHR ''4''" "digit_char 5 = CHR ''5''"
  "digit_char 6 = CHR ''6''" "digit_char 7 = CHR ''7''" "digit_char 8 = CHR ''8''"
  "digit_char 9 = CHR ''9''"
  by code_simp+

lemma of_char_digit_char: "d < 10 \<Longrightarrow> (of_char (digit_char d) :: nat) = 48 + d"
  by (simp add: digit_char_def)

lemma is_digit_digit_char: "d < 10 \<Longrightarrow> is_digit (digit_char d)"
  by (simp add: is_digit_def of_char_digit_char)

lemma digit_char_not_dash: "d < 10 \<Longrightarrow> digit_char d \<noteq> CHR ''-''"
proof
  assume "d < 10" "digit_char d = CHR ''-''"
  then have "(of_char (CHR ''-'') :: nat) = 48 + d" using of_char_digit_char by metis
  then show False by simp
qed

lemma digits_all_digit: "list_all is_digit (digits n)"
proof (induction n rule: digits.induct)
  case (1 n)
  show ?case
  proof (cases "n < 10")
    case True
    then show ?thesis by (subst digits.simps) (simp add: is_digit_digit_char)
  next
    case False
    with 1 show ?thesis by (subst digits.simps) (simp add: is_digit_digit_char)
  qed
qed

lemma digits_no_dash: "CHR ''-'' \<notin> set (digits n)"
proof
  assume "CHR ''-'' \<in> set (digits n)"
  with digits_all_digit [of n] have "is_digit CHR ''-''" by (auto simp: list_all_iff)
  then show False by (simp add: is_digit_def)
qed

lemma Number_js_digits: "Number_js (digits n) = Some (int n)"
proof -
  have "foldl (\<lambda>a c. 10 * a + (int (of_char c) - 48)) 0 (digits n) = int n"
  proof (induction n rule: digits.induct)
    case (1 n)
    show ?case
    proof (cases "n < 10")
      case True
      then show ?thesis by (subst digits.simps) (simp add: of_char_digit_char)
    next
      case False
      have "int n = int (10 * (n div 10) + n mod 10)"
        by (simp only: mult_div_mod_eq)
      also have "\<dots> = 10 * int (n div 10) + int (n mod 10)"
        by (simp only: of_nat_add of_nat_mult of_nat_numeral)
      finally have "10 * int (n div 10) + int (n mod 10) = int n" by simp
      with False 1 show ?thesis by (subst digits.simps) (simp add: of_char_digit_char)
    qed
  qed
  then show ?thesis by (simp add: Number_js_def digits_all_digit)
qed

lemma Number_js_empty: "Number_js [] = Some 0"
  by (simp add: Number_js_def)

lemma split_on_no_sep: "c \<notin> set a \<Longrightarrow> split_on c a = [a]"
  by (induction a) auto

lemma split_on_first: "c \<notin> set a \<Longrightarrow> split_on c (a @ c # b) = a # split_on c b"
  by (induction a) auto

lemma parse_key_trend_key:
  "parse_key (trend_key y mo)
     = Some (if y < 0 then (0, - y) else if mo < 0 then (y, 0) else (y, mo))"
proof -
  consider "y < 0" | "0 \<le> y" "mo < 0" | "0 \<le> y" "0 \<le> mo" by linarith
  then show ?thesis
  proof cases
    case 1
    then have "trend_key y mo = [] @ CHR ''-'' # (digits (nat (- y)) @ CHR ''-'' # show_int mo)"
      by (simp add: trend_key_def show_int_def)
    then have "split_on CHR ''-'' (trend_key y mo)
                 = [] # digits (nat (- y)) # split_on CHR ''-'' (show_int mo)"
      by (simp add: split_on_first digits_no_dash del: append_Nil)
    with 1 show ?thesis
      by (simp add: parse_key_def Number_js_digits Number_js_empty)
  next
    case 2
    then have "trend_key y mo = digits (nat y) @ CHR ''-'' # ([] @ CHR ''-'' # digits (nat (- mo)))"
      by (simp add: trend_key_def show_int_def)
    then have "split_on CHR ''-'' (trend_key y mo) = [digits (nat y), [], digits (nat (- mo))]"
      by (simp add: split_on_first split_on_no_sep digits_no_dash del: append_Nil)
    with 2 show ?thesis
      by (simp add: parse_key_def Number_js_digits Number_js_empty)
  next
    case 3
    then have "trend_key y mo = digits (nat y) @ CHR ''-'' # digits (nat mo)"
      by (simp add: trend_key_def show_int_def)
    then have "split_on CHR ''-'' (trend_key y mo) = [digits (nat y), digits (nat mo)]"
      by (simp add: split_on_first split_on_no_sep digits_no_dash)
    with 3 show ?thesis
      by (simp add: parse_key_def Number_js_digits)
  qed
qed

section \<open>Monthly trends\<close>

lemma add_points_append: "add_points (ps @ qs) tm = add_points qs (add_points ps tm)"
  by (induction ps arbitrary: tm) (simp_all add: Let_def)

lemma add_names_points: "add_names name names tm = add_points (selected_points name names) tm"
proof (induction names arbitrary: tm)
  case Nil
  then show ?case by (simp add: selected_points_def)
next
  case (Cons ne names)
  obtain n s where ne: "ne = (n, s)" by (cases ne)
  have sel: "selected_points name ((n, s) # names)
               = (if name_selected name n then points_of s else []) @ selected_points name names"
    by (simp add: selected_points_def)
  show ?case unfolding ne sel
    by (cases s) (simp_all add: Cons.IH add_points_append points_of_def)
qed

lemma keys_update: "fst ` set (AList.update k v al) = insert k (fst ` set al)"
  by (induction al) auto

lemma keys_add_points:
  "fst ` set (add_points ps tm) = fst ` set tm \<union> (\<lambda>d. trend_key (year d) (month d)) ` set ps"
  by (induction ps arbitrary: tm) (auto simp: keys_update Let_def)

lemma distinct_add_points: "distinct (map fst tm) \<Longrightarrow> distinct (map fst (add_points ps tm))"
  by (induction ps arbitrary: tm) (simp_all add: Let_def distinct_update)

lemma trend_entry_key:
  "trend_entry (trend_key y mo, v)
     = Some (if y < 0 then \<lparr>year = 0, month = - y, total_count = v\<rparr>
             else if mo < 0 then \<lparr>year = y, month = 0, total_count = v\<rparr>
             else \<lparr>year = y, month = mo, total_count = v\<rparr>)"
  by (simp add: trend_entry_def parse_key_trend_key)

lemma those_map_Some:
  "(\<And>x. x \<in> set xs \<Longrightarrow> f x \<noteq> None) \<Longrightarrow> those (map f xs) = Some (map (the \<circ> f) xs)"
proof (induction xs)
  case Nil
  then show ?case by simp
next
  case (Cons a xs)
  from Cons.prems [of a] obtain y where "f a = Some y" by auto
  moreover have "those (map f xs) = Some (map (the \<circ> f) xs)"
    by (rule Cons.IH) (simp add: Cons.prems)
  ultimately show ?case by simp
qed

lemma entries_of_points:
  "those (map trend_entry (add_points ps [])) = Some (map (the \<circ> trend_entry) (add_points ps []))"
proof (rule those_map_Some)
  fix kv assume "kv \<in> set (add_points ps [])"
  then have "fst kv \<in> (\<lambda>d. trend_key (year d) (month d)) ` set ps"
    using keys_add_points [of ps "[]"] by auto
  then obtain d :: MonthlyDataPoint where "fst kv = trend_key (year d) (month d)" by auto
  then have "kv = (trend_key (year d) (month d), snd kv)" by (cases kv) simp
  then show "trend_entry kv \<noteq> None" using trend_entry_key [of "year d" "month d" "snd kv"] by simp
qed

lemma getMonthlyTrendsByMetric_present:
  "map_of m metric = Some names \<Longrightarrow>
   getMonthlyTrendsByMetric m metric name
     = Some (js_sort trend_cmp (map (the \<circ> trend_entry) (add_points (selected_points name names) [])))"
  by (simp add: getMonthlyTrendsByMetric_def add_names_points entries_of_points)

lemma getMonthlyTrendsByMetric_absent:
  "map_of m metric = None \<Longrightarrow> getMonthlyTrendsByMetric m metric name = Some []"
  by (simp add: getMonthlyTrendsByMetric_def)

lemma trend_cmp_le: "trend_cmp a b \<le> 0 \<longleftrightarrow> year a < year b \<or> (year a = year b \<and> month a \<le> month b)"
  by (auto simp: trend_cmp_def)

lemma sorted_trends:
  "sorted_wrt (\<lambda>a b. year a < year b \<or> (year a = year b \<and> month a \<le> month b)) (js_sort trend_cmp es)"
proof -
  have "sorted_wrt (\<lambda>a b. trend_cmp a b \<le> 0) (js_sort trend_cmp es)"
    by (rule sorted_js_sort) (auto simp: trend_cmp_le)
  then show ?thesis by (simp add: trend_cmp_le)
qed

lemma nonneg_selected:
  assumes "nonneg_years m" "nonneg_months m" "map_of m metric = Some names"
    and "d \<in> set (selected_points name names)"
  shows "0 \<le> year d \<and> 0 \<le> month d"
proof -
  from assms(4) obtain ne where ne: "ne \<in> set names" "d \<in> set (points_of (snd ne))"
    by (auto simp: selected_points_def split: if_splits)
  from assms(3) have e: "(metric, names) \<in> set m" by (rule map_of_SomeD)
  have "\<forall>e\<in>set m. \<forall>ne\<in>set (snd e). \<forall>d\<in>set (points_of (snd ne)). 0 \<le> year d"
    using assms(1) unfolding nonneg_years_def list_all_iff .
  from bspec [OF bspec [OF bspec [OF this e], simplified, OF ne(1)] ne(2)]
  have y: "0 \<le> year d" .
  have "\<forall>e\<in>set m. \<forall>ne\<in>set (snd e). \<forall>d\<in>set (points_of (snd ne)). 0 \<le> month d"
    using assms(2) unfolding nonneg_months_def list_all_iff .
  from bspec [OF bspec [OF bspec [OF this e], simplified, OF ne(1)] ne(2)]
  have "0 \<le> month d" .
  with y show ?thesis by simp
qed

lemma distinct_pairs:
  assumes nn: "\<And>d. d \<in> set ps \<Longrightarrow> 0 \<le> year d \<and> 0 \<le> month d"
  shows "distinct (map (\<lambda>e. (year e, month e)) (map (the \<circ> trend_entry) (add_points ps [])))"
proof -
  let ?tm = "add_points ps []"
  have key: "trend_key (year (the (trend_entry kv))) (month (the (trend_entry kv))) = fst kv"
    if "kv \<in> set ?tm" for kv
  proof -
    from that have "fst kv \<in> (\<lambda>d. trend_key (year d) (month d)) ` set ps"
      using keys_add_points [of ps "[]"] by auto
    then obtain d where d: "d \<in> set ps" "fst kv = trend_key (year d) (month d)" by auto
    then have "kv = (trend_key (year d) (month d), snd kv)" by (cases kv) simp
    then have "trend_entry kv = Some \<lparr>year = year d, month = month d, total_count = snd kv\<rparr>"
      using trend_entry_key [of "year d" "month d" "snd kv"] nn [OF d(1)] by simp
    with d(2) show ?thesis by simp
  qed
  have eq: "map (\<lambda>p. trend_key (fst p) (snd p))
              (map (\<lambda>e. (year e, month e)) (map (the \<circ> trend_entry) ?tm))
          = map fst ?tm"
    using key by (simp add: comp_def cong: map_cong)
  have "distinct (map fst ?tm)" by (rule distinct_add_points) simp
  then have "distinct (map (\<lambda>p. trend_key (fst p) (snd p))
      (map (\<lambda>e. (year e, month e)) (map (the \<circ> trend_entry) ?tm)))"
    by (simp only: eq)
  then have "distinct (map (\<lambda>e. (year e, month e)) (map (the \<circ> trend_entry) ?tm))
      \<and> inj_on (\<lambda>p. trend_key (fst p) (snd p))
          (set (map (\<lambda>e. (year e, month e)) (map (the \<circ> trend_entry) ?tm)))"
    by (simp only: distinct_map)
  then show ?thesis by (rule conjunct1)
qed

lemma update_sum:
  "sum_list (map (\<lambda>kv. if Q (fst kv) then snd kv else 0)
       (AList.update k ((case map_of al k of None \<Rightarrow> 0 | Some v \<Rightarrow> v) + c) al))
   = sum_list (map (\<lambda>kv. if Q (fst kv) then snd kv else 0) al) + (if Q k then c else (0::int))"
  by (induction al) auto

lemma lookup_abs_le:
  "\<bar>case map_of al k of None \<Rightarrow> 0 | Some v \<Rightarrow> v\<bar> \<le> sum_list (map (\<lambda>kv. \<bar>snd kv :: int\<bar>) al)"
proof (induction al)
  case Nil
  then show ?case by simp
next
  case (Cons a al)
  have "0 \<le> sum_list (map (\<lambda>kv. \<bar>snd kv\<bar>) al)" by (rule sum_list_nonneg) auto
  with Cons show ?case by (cases a) auto
qed

lemma update_abs:
  "sum_list (map (\<lambda>kv. \<bar>snd kv\<bar>)
       (AList.update k ((case map_of al k of None \<Rightarrow> 0 | Some v \<Rightarrow> v) + c) al))
   \<le> sum_list (map (\<lambda>kv. \<bar>snd kv\<bar>) al) + \<bar>c :: int\<bar>"
  by (induction al) auto

lemma add_points_sum:
  "sum_list (map (\<lambda>kv. \<bar>snd kv\<bar>) tm) + sum_list (map (\<lambda>d. \<bar>count d\<bar>) ps) < 2 ^ 53 \<Longrightarrow>
   sum_list (map (\<lambda>kv. if Q (fst kv) then snd kv else 0) (add_points ps tm))
   = sum_list (map (\<lambda>kv. if Q (fst kv) then snd kv else 0) tm)
     + sum_list (map (\<lambda>d. if Q (trend_key (year d) (month d)) then count d else 0) ps)"
proof (induction ps arbitrary: tm)
  case Nil
  then show ?case by simp
next
  case (Cons d ps)
  let ?k = "trend_key (year d) (month d)"
  let ?v = "case map_of tm ?k of None \<Rightarrow> 0 | Some v \<Rightarrow> v"
  let ?tm = "AList.update ?k (?v + count d) tm"
  have rest: "0 \<le> sum_list (map (\<lambda>d. \<bar>count d\<bar>) ps)" by (rule sum_list_nonneg) auto
  have "\<bar>?v + count d\<bar> \<le> sum_list (map (\<lambda>kv. \<bar>snd kv\<bar>) tm) + \<bar>count d\<bar>"
    using lookup_abs_le [of tm ?k] by linarith
  with Cons.prems rest have "\<bar>?v + count d\<bar> < 2 ^ 53" by simp
  then have step: "js_add ?v (count d) = ?v + count d" by (rule js_add_exact)
  have "sum_list (map (\<lambda>kv. \<bar>snd kv\<bar>) ?tm) + sum_list (map (\<lambda>d. \<bar>count d\<bar>) ps) < 2 ^ 53"
    using update_abs [where k = ?k and al = tm and c = "count d"] Cons.prems by simp
  from Cons.IH [OF this] step show ?case
    by (simp add: Let_def update_sum)
qed

lemma sum_list_if_filter:
  "sum_list (map (\<lambda>x. if P x then f x else (0::int)) xs) = sum_list (map f (filter P xs))"
  by (induction xs) simp_all

lemma sum_entries_of_year:
  "(\<And>kv. kv \<in> set tm \<Longrightarrow> parse_key (fst kv) \<noteq> None) \<Longrightarrow>
   sum_list (map total_count (filter (\<lambda>e. year e = Y) (map (the \<circ> trend_entry) tm)))
   = sum_list (map (\<lambda>kv. if key_year (fst kv) = Some Y then snd kv else 0) tm)"
proof (induction tm)
  case Nil
  then show ?case by simp
next
  case (Cons kv tm)
  from Cons.prems [of kv] obtain y mo where "parse_key (fst kv) = Some (y, mo)" by auto
  then have "trend_entry kv = Some \<lparr>year = y, month = mo, total_count = snd kv\<rparr>"
    "key_year (fst kv) = Some y"
    by (simp_all add: trend_entry_def key_year_def)
  moreover have "sum_list (map total_count (filter (\<lambda>e. year e = Y) (map (the \<circ> trend_entry) tm)))
   = sum_list (map (\<lambda>kv. if key_year (fst kv) = Some Y then snd kv else 0) tm)"
    by (rule Cons.IH) (simp add: Cons.prems)
  ultimately show ?case by (simp add: comp_def)
qed

lemma sum_filter_js_sort:
  "sum_list (map f (filter P (js_sort cmp xs))) = (sum_list (map f (filter P xs)) :: int)"
proof -
  have "mset (map f (filter P (js_sort cmp xs))) = mset (map f (filter P xs))"
    by (simp only: mset_map mset_filter mset_js_sort)
  then have "sum_mset (mset (map f (filter P (js_sort cmp xs)))) = sum_mset (mset (map f (filter P xs)))"
    by (rule arg_cong)
  then show ?thesis by (simp only: sum_mset_sum_list)
qed

lemma trends_year_sum:
  assumes names: "map_of m metric = Some names"
    and nn: "\<And>d. d \<in> set (selected_points name names) \<Longrightarrow> 0 \<le> year d"
    and small: "sum_list (map (\<lambda>d. \<bar>count d\<bar>) (selected_points name names)) < 2 ^ 53"
  shows "\<exists>ts. getMonthlyTrendsByMetric m metric name = Some ts \<and>
           sum_list (map total_count (filter (\<lambda>e. year e = Y) ts))
             = sum_list (map count (filter (\<lambda>d. year d = Y) (selected_points name names)))"
proof -
  let ?ps = "selected_points name names"
  let ?tm = "add_points ?ps []"
  have parse: "parse_key (fst kv) \<noteq> None" if "kv \<in> set ?tm" for kv
  proof -
    from that have "fst kv \<in> (\<lambda>d. trend_key (year d) (month d)) ` set ?ps"
      using keys_add_points [of ?ps "[]"] by auto
    then obtain d :: MonthlyDataPoint where "fst kv = trend_key (year d) (month d)" by auto
    then show ?thesis by (simp add: parse_key_trend_key)
  qed
  have "sum_list (map total_count (filter (\<lambda>e. year e = Y) (js_sort trend_cmp (map (the \<circ> trend_entry) ?tm))))
          = sum_list (map total_count (filter (\<lambda>e. year e = Y) (map (the \<circ> trend_entry) ?tm)))"
    by (rule sum_filter_js_sort)
  also have "\<dots> = sum_list (map (\<lambda>kv. if key_year (fst kv) = Some Y then snd kv else 0) ?tm)"
    by (rule sum_entries_of_year) (rule parse)
  also have "\<dots> = sum_list (map (\<lambda>d. if key_year (trend_key (year d) (month d)) = Some Y
                                        then count d else 0) ?ps)"
    using small by (simp add: add_points_sum [where Q = "\<lambda>k. key_year k = Some Y"])
  also have "\<dots> = sum_list (map (\<lambda>d. if year d = Y then count d else 0) ?ps)"
  proof (rule arg_cong [where f = sum_list], rule map_cong [OF refl])
    fix d assume "d \<in> set ?ps"
    then have "0 \<le> year d" by (rule nn)
    then have "key_year (trend_key (year d) (month d)) = Some (year d)"
      by (simp add: key_year_def parse_key_trend_key)
    then show "(if key_year (trend_key (year d) (month d)) = Some Y then count d else 0)
                = (if year d = Y then count d else 0)"
      by simp
  qed
  also have "\<dots> = sum_list (map count (filter (\<lambda>d. year d = Y) ?ps))"
    by (rule sum_list_if_filter)
  finally show ?thesis
    using getMonthlyTrendsByMetric_present [OF names, of name] by simp
qed

lemma map_of_restrict_metrics:
  "distinct (map fst m) \<Longrightarrow>
   map_of (restrict_metrics pred m) metric
     = (case map_of m metric of
          None \<Rightarrow> None
        | Some names \<Rightarrow> if metric = ''__proto__'' \<or> restrict_names pred names = [] then None
                        else Some (restrict_names pred names))"
proof (induction m)
  case Nil
  then show ?case by simp
next
  case (Cons e m)
  have "map_of (restrict_metrics pred m) (fst e) = None"
    using Cons.prems keys_restrict_metrics [of pred m]
    by (auto simp: map_of_eq_None_iff)
  with Cons show ?case by (cases e) auto
qed

lemma names_total_restrict:
  "list_all (\<lambda>ne. fst ne \<noteq> ''__proto__'') names \<Longrightarrow>
   names_total (restrict_names pred names)
     = sum_list (map count (filter pred (selected_points None names)))"
proof (induction names)
  case Nil
  then show ?case by (simp add: names_total_def selected_points_def)
next
  case (Cons ne names)
  have sel: "selected_points None (ne # names) = points_of (snd ne) @ selected_points None names"
    by (simp add: selected_points_def name_selected_def)
  have tot: "names_total (x # xs) = exact_total (snd x) + names_total xs" for x xs
    by (simp add: names_total_def)
  show ?case using Cons
    by (simp add: sel tot exact_total_def series_counts_def)
qed

lemma sum_abs_filter:
  "sum_list (map (\<lambda>d. \<bar>f d :: int\<bar>) (filter P xs)) \<le> sum_list (map (\<lambda>d. \<bar>f d\<bar>) xs)"
  by (induction xs) auto

lemma points_abs: "sum_list (map (\<lambda>d. \<bar>count d\<bar>) (points_of s)) \<le> series_abs s"
proof (cases s)
  case (TimeSeries ps)
  then show ?thesis by (simp add: points_of_def series_abs_def series_counts_def comp_def)
qed (use series_abs_nonneg [of s] in \<open>simp_all add: points_of_def\<close>)

lemma names_abs_restrict: "names_abs (restrict_names pred names) \<le> names_abs names"
proof (induction names)
  case Nil
  then show ?case by simp
next
  case (Cons ne names)
  have "series_abs (TimeSeries (filter pred (points_of (snd ne)))) \<le> series_abs (snd ne)"
    using sum_abs_filter [of count pred "points_of (snd ne)"] points_abs [of "snd ne"]
    by (simp add: series_abs_def series_counts_def comp_def)
  with Cons series_abs_nonneg [of "snd ne"] show ?case by (simp add: names_abs_def)
qed

lemma selected_abs:
  "sum_list (map (\<lambda>d. \<bar>count d\<bar>) (selected_points name names)) \<le> names_abs names"
proof (induction names)
  case Nil
  then show ?case by (simp add: selected_points_def names_abs_def)
next
  case (Cons ne names)
  have sel: "selected_points name (ne # names)
               = (if name_selected name (fst ne) then points_of (snd ne) else [])
                 @ selected_points name names"
    by (simp add: selected_points_def)
  show ?case
    using Cons points_abs [of "snd ne"] series_abs_nonneg [of "snd ne"]
    by (simp add: sel names_abs_def)
qed

lemma exact_sums_example_metrics: "exact_sums example_metrics"
  by (simp add: exact_sums_def metrics_abs_def names_abs_def series_abs_def series_counts_def
      example_metrics_def)

lemma no_proto_keys_example_metrics: "no_proto_keys example_metrics"
  by (simp add: no_proto_keys_def example_metrics_def)

lemma nonneg_example_metrics: "nonneg_years example_metrics" "nonneg_months example_metrics"
  by (simp_all add: nonneg_years_def nonneg_months_def example_metrics_def points_of_def)

lemmas trend_eval =
  getMonthlyTrendsByMetric_def name_selected_def trend_key_def show_int_def digits.simps
  digit_char_simps trend_entry_def parse_key_def Number_js_def is_digit_def js_sort_def
  trend_cmp_def sum_eval

text \<open>
  Claim C10, as stated: for every model the entries of \<open>getMonthlyTrendsByMetric\<close> have
  pairwise distinct pairs of year and month. A negative year gives a key that starts with
  the separator, so the year is read as 0 and the month as the year without its sign: the
  points of months 1 and 2 of the year -1 give two entries of year 0 and month 1.
\<close>

theorem trends_of_negative_year_repeat_a_pair:
  "getMonthlyTrendsByMetric
     [(''Transaction'',
        [(''X'', TimeSeries [\<lparr>year = - 1, month = 1, count = 10\<rparr>,
                             \<lparr>year = - 1, month = 2, count = 20\<rparr>])])]
     ''Transaction'' None
   = Some [\<lparr>year = 0, month = 1, total_count = 10\<rparr>,
           \<lparr>year = 0, month = 1, total_count = 20\<rparr>]"
  by (simp add: trend_eval)

text \<open>
  Claim C10, amended. For every model, metric and optional name,
  \<open>getMonthlyTrendsByMetric\<close> returns a list that is sorted ascending by year and,
  within a year, by month, and that is empty when the metric is absent from the model;
  when the monthly points of the model have non-negative years and months, the pairs of
  year and month of the list are pairwise distinct.
\<close>

theorem trends_sorted_and_distinct:
  "\<exists>ts. getMonthlyTrendsByMetric m metric name = Some ts \<and>
      sorted_wrt (\<lambda>a b. year a < year b \<or> (year a = year b \<and> month a \<le> month b)) ts \<and>
      (map_of m metric = None \<longrightarrow> ts = []) \<and>
      (nonneg_years m \<and> nonneg_months m \<longrightarrow> distinct (map (\<lambda>e. (year e, month e)) ts))"
proof (cases "map_of m metric")
  case None
  then show ?thesis by (simp add: getMonthlyTrendsByMetric_absent)
next
  case (Some names)
  let ?es = "map (the \<circ> trend_entry) (add_points (selected_points name names) [])"
  have r: "getMonthlyTrendsByMetric m metric name = Some (js_sort trend_cmp ?es)"
    using Some by (rule getMonthlyTrendsByMetric_present)
  have d: "distinct (map (\<lambda>e. (year e, month e)) (js_sort trend_cmp ?es))"
    if nn: "nonneg_years m \<and> nonneg_months m"
  proof -
    have "distinct (map (\<lambda>e. (year e, month e)) ?es)"
      by (rule distinct_pairs) (rule nonneg_selected [OF conjunct1 [OF nn] conjunct2 [OF nn] Some])
    moreover have "mset (map (\<lambda>e. (year e, month e)) (js_sort trend_cmp ?es))
                     = mset (map (\<lambda>e. (year e, month e)) ?es)"
      by (simp only: mset_map mset_js_sort)
    then have "distinct (map (\<lambda>e. (year e, month e)) (js_sort trend_cmp ?es))
                 = distinct (map (\<lambda>e. (year e, month e)) ?es)"
      by (rule mset_eq_imp_distinct_iff)
    ultimately show ?thesis by simp
  qed
  from r d sorted_trends [of ?es] Some show ?thesis by simp
qed

theorem trends_sorted_and_distinct_witness:
  "nonneg_years example_metrics \<and> nonneg_months example_metrics \<and>
   getMonthlyTrendsByMetric example_metrics ''Transaction'' None
     = Some [\<lparr>year = 2022, month = 1, total_count = 10\<rparr>,
             \<lparr>year = 2022, month = 2, total_count = 27\<rparr>,
             \<lparr>year = 2023, month = 1, total_count = 5\<rparr>] \<and>
   distinct (map (\<lambda>e. (year e, month e))
     [\<lparr>year = 2022, month = 1, total_count = 10\<rparr>,
      \<lparr>year = 2022, month = 2, total_count = 27\<rparr>,
      \<lparr>year = 2023, month = 1, total_count = 5\<rparr>])"
proof -
  have v: "getMonthlyTrendsByMetric example_metrics ''Transaction'' None
     = Some [\<lparr>year = 2022, month = 1, total_count = 10\<rparr>,
             \<lparr>year = 2022, month = 2, total_count = 27\<rparr>,
             \<lparr>year = 2023, month = 1, total_count = 5\<rparr>]"
    by (simp add: trend_eval example_metrics_def)
  from trends_sorted_and_distinct [of example_metrics "''Transaction''" None]
  obtain ts where ts: "getMonthlyTrendsByMetric example_metrics ''Transaction'' None = Some ts"
    "nonneg_years example_metrics \<and> nonneg_months example_metrics
       \<longrightarrow> distinct (map (\<lambda>e. (year e, month e)) ts)"
    by blast
  from ts(2) nonneg_example_metrics have "distinct (map (\<lambda>e. (year e, month e)) ts)"
    by blast
  with ts(1) v nonneg_example_metrics show ?thesis by simp
qed

text \<open>
  Claim C5, as stated: for every model the total of a metric in the model filtered by
  year \<open>Y\<close> is the sum of the trend entries of year \<open>Y\<close>. With a point of the year -1 the
  total of the filtered model is 7 while the only trend entry has year 0, so the sum over
  the entries of year -1 is 0. With a series that is a bare number the filter raises a
  \<^verbatim>\<open>TypeError\<close> while the trends are the empty list. With a name \<^verbatim>\<open>__proto__\<close> the
  filtered model is empty, so the total of the metric in it is 0, while the trend entry
  of the year has the count 10. With the counts \<open>2\<^sup>5\<^sup>3\<close>, 1 and 1 the total of the filtered
  model is \<open>2\<^sup>5\<^sup>3\<close> while the trend entries of the year hold \<open>2\<^sup>5\<^sup>3\<close> and 2.
\<close>

theorem year_total_differs_from_trend_sum:
  "filterMetricsByYear
     [(''Transaction'', [(''X'', TimeSeries [\<lparr>year = - 1, month = 2, count = 7\<rparr>])])] (- 1)
   = Inr [(''Transaction'', [(''X'', TimeSeries [\<lparr>year = - 1, month = 2, count = 7\<rparr>])])] \<and>
   calculateTotalsByMetric
     [(''Transaction'', [(''X'', TimeSeries [\<lparr>year = - 1, month = 2, count = 7\<rparr>])])]
     ''Transaction'' None = 7 \<and>
   getMonthlyTrendsByMetric
     [(''Transaction'', [(''X'', TimeSeries [\<lparr>year = - 1, month = 2, count = 7\<rparr>])])]
     ''Transaction'' None
   = Some [\<lparr>year = 0, month = 1, total_count = 7\<rparr>] \<and>
   sum_list (map total_count
     (filter (\<lambda>e. year e = - 1) [\<lparr>year = 0, month = 1, total_count = 7\<rparr>])) = 0 \<and>
   filterMetricsByYear [(''Transaction'', [(''X'', Scalar 35)])] 2022 = Inl TypeError \<and>
   getMonthlyTrendsByMetric [(''Transaction'', [(''X'', Scalar 35)])] ''Transaction'' None
   = Some [] \<and>
   filterMetricsByYear
     [(''Transaction'', [(''__proto__'', TimeSeries [\<lparr>year = 2022, month = 1, count = 10\<rparr>])])]
     2022
   = Inr [] \<and>
   calculateTotalsByMetric [] ''Transaction'' None = 0 \<and>
   getMonthlyTrendsByMetric
     [(''Transaction'', [(''__proto__'', TimeSeries [\<lparr>year = 2022, month = 1, count = 10\<rparr>])])]
     ''Transaction'' None
   = Some [\<lparr>year = 2022, month = 1, total_count = 10\<rparr>] \<and>
   filterMetricsByYear large_counts 2022 = Inr large_counts \<and>
   calculateTotalsByMetric large_counts ''Transaction'' None = 9007199254740992 \<and>
   getMonthlyTrendsByMetric large_counts ''Transaction'' None
   = Some [\<lparr>year = 2022, month = 1, total_count = 9007199254740992\<rparr>,
           \<lparr>year = 2022, month = 2, total_count = 2\<rparr>]"
  by (simp add: trend_eval filterMetricsByYear_def array_filter_def assign_def
      calculateTotalsByMetric_def large_counts_def)

text \<open>
  Claim C5, amended. For every model whose series are all arrays of monthly points with
  non-negative years, in which no metric and no name is called \<^verbatim>\<open>__proto__\<close> and the
  magnitudes of all counts add up to less than \<open>2\<^sup>5\<^sup>3\<close>, every year \<open>Y\<close> and every
  metric, \<open>filterMetricsByYear\<close> returns a model, and the total of the metric in it,
  computed by \<open>calculateTotalsByMetric\<close> without a name, equals the sum of
  \<open>total_count\<close> over the entries of \<open>getMonthlyTrendsByMetric\<close> for the metric whose
  year is \<open>Y\<close>.
\<close>

theorem year_total_is_sum_of_trend_entries:
  assumes "wf_metrics m" "all_arrays m" "nonneg_years m" "no_proto_keys m" "exact_sums m"
  shows "\<exists>r ts. filterMetricsByYear m Y = Inr r \<and>
           getMonthlyTrendsByMetric m metric None = Some ts \<and>
           calculateTotalsByMetric r metric None
             = sum_list (map total_count (filter (\<lambda>e. year e = Y) ts))"
proof -
  let ?p = "\<lambda>d::MonthlyDataPoint. year d = Y"
  have r: "filterMetricsByYear m Y = Inr (restrict_metrics ?p m)"
    using assms(1,2) by (simp add: filterMetricsByYear_char)
  have d: "distinct (map fst m)" using assms(1) by (simp add: wf_metrics_def)
  show ?thesis
  proof (cases "map_of m metric")
    case None
    then have "map_of (restrict_metrics ?p m) metric = None"
      by (simp add: map_of_restrict_metrics [OF d])
    then have "calculateTotalsByMetric (restrict_metrics ?p m) metric None = 0"
      by (rule calculateTotalsByMetric_absent)
    with r None show ?thesis by (simp add: getMonthlyTrendsByMetric_absent)
  next
    case (Some names)
    from Some have e: "(metric, names) \<in> set m" by (rule map_of_SomeD)
    have nn: "0 \<le> year d" if "d \<in> set (selected_points None names)" for d
    proof -
      from that obtain ne where ne: "ne \<in> set names" "d \<in> set (points_of (snd ne))"
        by (auto simp: selected_points_def split: if_splits)
      have "\<forall>e\<in>set m. \<forall>ne\<in>set (snd e). \<forall>d\<in>set (points_of (snd ne)). 0 \<le> year d"
        using assms(3) unfolding nonneg_years_def list_all_iff .
      from bspec [OF bspec [OF bspec [OF this e], simplified, OF ne(1)] ne(2)]
      show ?thesis .
    qed
    have "\<forall>e\<in>set m. fst e \<noteq> ''__proto__'' \<and> list_all (\<lambda>ne. fst ne \<noteq> ''__proto__'') (snd e)"
      using assms(4) unfolding no_proto_keys_def list_all_iff by simp
    from bspec [OF this e]
    have np: "metric \<noteq> ''__proto__''" "list_all (\<lambda>ne. fst ne \<noteq> ''__proto__'') names"
      by simp_all
    have small: "names_abs names < 2 ^ 53"
      using names_abs_le_metrics_abs [OF e] assms(5) by (simp add: exact_sums_def)
    have "sum_list (map (\<lambda>d. \<bar>count d\<bar>) (selected_points None names)) < 2 ^ 53"
      using selected_abs [of None names] small by linarith
    from trends_year_sum [OF Some nn this, of Y]
    obtain ts where ts: "getMonthlyTrendsByMetric m metric None = Some ts"
      "sum_list (map total_count (filter (\<lambda>e. year e = Y) ts))
         = sum_list (map count (filter ?p (selected_points None names)))"
      by blast
    have "calculateTotalsByMetric (restrict_metrics ?p m) metric None
            = sum_list (map count (filter ?p (selected_points None names)))"
    proof (cases "restrict_names ?p names = []")
      case True
      with Some have "map_of (restrict_metrics ?p m) metric = None"
        by (simp add: map_of_restrict_metrics [OF d])
      then have "calculateTotalsByMetric (restrict_metrics ?p m) metric None = 0"
        by (rule calculateTotalsByMetric_absent)
      moreover have "names_total (restrict_names ?p names) = 0"
        using True by (simp add: names_total_def)
      ultimately show ?thesis by (simp add: names_total_restrict [OF np(2)])
    next
      case False
      with Some np(1) have "map_of (restrict_metrics ?p m) metric = Some (restrict_names ?p names)"
        by (simp add: map_of_restrict_metrics [OF d])
      moreover have "names_abs (restrict_names ?p names) < 2 ^ 53"
        using names_abs_restrict [of ?p names] small by linarith
      ultimately have "calculateTotalsByMetric (restrict_metrics ?p m) metric None
                   = names_total (restrict_names ?p names)"
        by (rule calculateTotalsByMetric_all)
      then show ?thesis by (simp add: names_total_restrict [OF np(2)])
    qed
    with r ts show ?thesis by simp
  qed
qed

theorem year_total_is_sum_of_trend_entries_witness:
  "wf_metrics example_metrics \<and> all_arrays example_metrics \<and> nonneg_years example_metrics \<and>
   no_proto_keys example_metrics \<and> exact_sums example_metrics \<and>
   (\<exists>r ts. filterMetricsByYear example_metrics 2022 = Inr r \<and>
      getMonthlyTrendsByMetric example_metrics ''Transaction'' None = Some ts \<and>
      calculateTotalsByMetric r ''Transaction'' None
        = sum_list (map total_count (filter (\<lambda>e. year e = 2022) ts)))"
  using wf_example_metrics all_arrays_example_metrics nonneg_example_metrics(1)
    no_proto_keys_example_metrics exact_sums_example_metrics
    year_total_is_sum_of_trend_entries
      [OF wf_example_metrics all_arrays_example_metrics nonneg_example_metrics(1)
          no_proto_keys_example_metrics exact_sums_example_metrics,
       of 2022 "''Transaction''"]
  by blast

section \<open>Names ranked by total\<close>











section \<open>The document cache and the loaders\<close>

lemma run_Nil: "run [] s = s"
  by (simp add: run_def)

lemma run_Cons: "run (e # es) s = run es (step e s)"
  by (simp add: run_def)

lemma call_loader_cached:
  "dataCache st cacheKey = Some data \<Longrightarrow> call_loader cacheKey url failure st = (Settled (Inr data), st)"
  by (simp add: call_loader_def)

lemma call_loader_fetches:
  "dataCache st cacheKey = None \<Longrightarrow>
   call_loader cacheKey url failure st
     = (AwaitFetch cacheKey failure, st\<lparr>fetched := fetched st @ [url]\<rparr>)"
  by (simp add: call_loader_def)

lemma step_keeps_cached:
  assumes "dataCache (snd s) k \<noteq> None"
  shows "dataCache (snd (step e s)) k \<noteq> None"
proof -
  obtain rs st where s: "s = (rs, st)" by (cases s)
  have call: "dataCache (snd (case call_loader cacheKey url failure st of
                                (r, st') \<Rightarrow> (rs @ [r], st'))) k \<noteq> None"
    for cacheKey url failure
    using assms s by (simp add: call_loader_def split: option.splits)
  have json: "dataCache (snd (case json_settles r st of (r', st') \<Rightarrow> (rs[i := r'], st'))) k \<noteq> None"
    for r i
    using assms s by (simp add: json_settles_def split: request.splits option.splits)
  show ?thesis
  proof (cases e)
    case CallCountry
    then show ?thesis using call by (simp add: s loadCountryData_def)
  next
    case (CallState state)
    then show ?thesis using call by (simp add: s loadStateData_def)
  next
    case (FetchSettles i outcome)
    then show ?thesis using assms by (simp add: s)
  next
    case (JsonSettles i)
    then show ?thesis using assms json by (simp add: s)
  qed
qed

lemma run_keeps_cached:
  "dataCache (snd s) k \<noteq> None \<Longrightarrow> dataCache (snd (run es s)) k \<noteq> None"
proof (induction es arbitrary: s)
  case Nil
  then show ?case by (simp add: run_Nil)
next
  case (Cons e es)
  from Cons.prems have "dataCache (snd (step e s)) k \<noteq> None" by (rule step_keeps_cached)
  then show ?case unfolding run_Cons by (rule Cons.IH)
qed

lemma later_call_is_cached:
  assumes "dataCache st cacheKey \<noteq> None"
    and call: "\<And>rs st. step e (rs, st)
                 = (case call_loader cacheKey url failure st of (r, st') \<Rightarrow> (rs @ [r], st'))"
  shows "\<exists>rs' st' d. run es (rs, st) = (rs', st') \<and> dataCache st' cacheKey = Some d \<and>
           step e (rs', st') = (rs' @ [Settled (Inr d)], st')"
proof -
  obtain rs' st' where r: "run es (rs, st) = (rs', st')" by (cases "run es (rs, st)")
  have "dataCache (snd (run es (rs, st))) cacheKey \<noteq> None"
    using assms(1) by (intro run_keeps_cached) simp
  with r obtain d where d: "dataCache st' cacheKey = Some d" by auto
  then have "step e (rs', st') = (rs' @ [Settled (Inr d)], st')"
    by (simp add: call call_loader_cached)
  with r d show ?thesis by blast
qed

lemma failed_request:
  assumes "dataCache st cacheKey = None" and "\<not> ok response"
    and call: "\<And>rs st. step e (rs, st)
                 = (case call_loader cacheKey url failure st of (r, st') \<Rightarrow> (rs @ [r], st'))"
  shows "run [e, FetchSettles (length rs) (Resolved response)] (rs, st)
           = (rs @ [Settled (Inl (Error (failure @ '': '' @ show_int (status response))))],
              st\<lparr>fetched := fetched st @ [url]\<rparr>)"
    and "step e (rs @ [Settled (Inl (Error (failure @ '': '' @ show_int (status response))))],
                 st\<lparr>fetched := fetched st @ [url]\<rparr>)
           = (rs @ [Settled (Inl (Error (failure @ '': '' @ show_int (status response)))),
                    AwaitFetch cacheKey failure],
              st\<lparr>fetched := fetched st @ [url, url]\<rparr>)"
  using assms(1,2)
  by (simp_all add: run_Cons run_Nil call call_loader_fetches fetch_settles_def)

lemma successful_request:
  assumes "dataCache st cacheKey = None" and "ok response" and "body response = Some data"
    and call: "\<And>rs st. step e (rs, st)
                 = (case call_loader cacheKey url failure st of (r, st') \<Rightarrow> (rs @ [r], st'))"
  shows "run [e, FetchSettles (length rs) (Resolved response), JsonSettles (length rs)] (rs, st)
           = (rs @ [Settled (Inr data)],
              st\<lparr>fetched := fetched st @ [url], dataCache := (dataCache st)(cacheKey \<mapsto> data)\<rparr>)"
    and "step e (rs @ [Settled (Inr data)],
                 st\<lparr>fetched := fetched st @ [url], dataCache := (dataCache st)(cacheKey \<mapsto> data)\<rparr>)
           = (rs @ [Settled (Inr data), Settled (Inr data)],
              st\<lparr>fetched := fetched st @ [url], dataCache := (dataCache st)(cacheKey \<mapsto> data)\<rparr>)"
  using assms(1,2,3)
  by (simp_all add: run_Cons run_Nil call call_loader_fetches call_loader_cached
      fetch_settles_def json_settles_def)

lemma step_CallState:
  "step (CallState state) (rs, st)
     = (case call_loader (''state-'' @ state) (''/data/state_'' @ state @ ''.json'')
               (''Failed to load state data for '' @ state) st of
          (r, st') \<Rightarrow> (rs @ [r], st'))"
  by (simp add: loadStateData_def)

lemma step_CallCountry:
  "step CallCountry (rs, st)
     = (case call_loader ''country'' ''/data/country.json'' ''Failed to load country data'' st of
          (r, st') \<Rightarrow> (rs @ [r], st'))"
  by (simp add: loadCountryData_def)

text \<open>
  Whatever other requests have done in between: a fetch that settles leaves the state as
  it is, and when its response is not a success the request settles with the error; the
  cache changes under a key only when the document of a successful response arrives for
  a request with that key.
\<close>

lemma failed_response_leaves_state:
  assumes "i < length rs" and "rs ! i = AwaitFetch cacheKey failure" and "\<not> ok response"
  shows "step (FetchSettles i (Resolved response)) (rs, st)
           = (rs[i := Settled (Inl (Error (failure @ '': '' @ show_int (status response))))], st)"
  using assms by (simp add: fetch_settles_def)

lemma cache_written_by_json_only:
  assumes "dataCache (snd (step e (rs, st))) k \<noteq> dataCache st k"
  shows "\<exists>i data. e = JsonSettles i \<and> i < length rs \<and> rs ! i = AwaitJson k (Some data) \<and>
           dataCache (snd (step e (rs, st))) k = Some data"
proof (cases e)
  case CallCountry
  with assms show ?thesis
    by (simp add: loadCountryData_def call_loader_def split: option.splits)
next
  case (CallState state)
  with assms show ?thesis
    by (simp add: loadStateData_def call_loader_def split: option.splits)
next
  case (FetchSettles i outcome)
  with assms show ?thesis by (simp split: if_splits)
next
  case (JsonSettles i)
  with assms show ?thesis
    by (auto simp: json_settles_def split: if_splits request.splits option.splits)
qed

text \<open>
  Two requests for a state made before the first response arrives both find the key
  absent from the cache, and both call \<^verbatim>\<open>fetch\<close>.
\<close>

lemma overlapping_requests_fetch_twice:
  "run [CallState ''KA'', CallState ''KA'', FetchSettles 0 (Resolved found), JsonSettles 0,
        FetchSettles 1 (Resolved found), JsonSettles 1] ([], empty_loader_state)
   = ([Settled (Inr ''{}''), Settled (Inr ''{}'')],
      \<lparr>dataCache = [''state-KA'' \<mapsto> ''{}''],
       fetched = [''/data/state_KA.json'', ''/data/state_KA.json'']\<rparr>)"
  by (simp add: run_def loadStateData_def call_loader_def fetch_settles_def json_settles_def
      empty_loader_state_def found_def)

text \<open>
  Claim C9. A request runs in three pieces, and the events of other requests may come
  between them and after them. Here the request is made when its key is not in the
  cache, with any requests \<open>rs\<close> made before, and its own events follow one another.

  When the fetch resolves with a response that is not a success, the request of
  \<open>loadStateData\<close>, and likewise of \<open>loadCountryData\<close>, settles with an error whose
  message names the request and the status; the cache is as it was, only the URL has been
  added to the list of the fetched ones; and the same request made next calls \<^verbatim>\<open>fetch\<close>
  again.

  When the fetch resolves with a success and the body is a document, the request settles
  with the document and the document is in the cache under the key; the same request
  made next settles with that document and leaves the state, with its list of fetched
  URLs, as it is; and after any events whatever, the same request settles at once with
  the document that the cache then holds under the key, and leaves the state as it is.
\<close>

theorem failed_load_not_cached_successful_load_cached:
  fixes st cst :: "'d loader_state"
  shows
   "(dataCache st (''state-'' @ state) = None \<and> \<not> ok response \<longrightarrow>
       run [CallState state, FetchSettles (length rs) (Resolved response)] (rs, st)
         = (rs @ [Settled (Inl (Error (''Failed to load state data for '' @ state @ '': ''
                                        @ show_int (status response))))],
            st\<lparr>fetched := fetched st @ [''/data/state_'' @ state @ ''.json'']\<rparr>) \<and>
       step (CallState state)
           (rs @ [Settled (Inl (Error (''Failed to load state data for '' @ state @ '': ''
                                        @ show_int (status response))))],
            st\<lparr>fetched := fetched st @ [''/data/state_'' @ state @ ''.json'']\<rparr>)
         = (rs @ [Settled (Inl (Error (''Failed to load state data for '' @ state @ '': ''
                                        @ show_int (status response)))),
                  AwaitFetch (''state-'' @ state) (''Failed to load state data for '' @ state)],
            st\<lparr>fetched := fetched st @ [''/data/state_'' @ state @ ''.json'',
                                          ''/data/state_'' @ state @ ''.json'']\<rparr>)) \<and>
    (dataCache st (''state-'' @ state) = None \<and> ok response \<and> body response = Some data \<longrightarrow>
       run [CallState state, FetchSettles (length rs) (Resolved response), JsonSettles (length rs)]
           (rs, st)
         = (rs @ [Settled (Inr data)],
            st\<lparr>fetched := fetched st @ [''/data/state_'' @ state @ ''.json''],
                dataCache := (dataCache st)(''state-'' @ state \<mapsto> data)\<rparr>) \<and>
       step (CallState state)
           (rs @ [Settled (Inr data)],
            st\<lparr>fetched := fetched st @ [''/data/state_'' @ state @ ''.json''],
                dataCache := (dataCache st)(''state-'' @ state \<mapsto> data)\<rparr>)
         = (rs @ [Settled (Inr data), Settled (Inr data)],
            st\<lparr>fetched := fetched st @ [''/data/state_'' @ state @ ''.json''],
                dataCache := (dataCache st)(''state-'' @ state \<mapsto> data)\<rparr>) \<and>
       (\<exists>rs' st' d.
          run es (rs @ [Settled (Inr data)],
                  st\<lparr>fetched := fetched st @ [''/data/state_'' @ state @ ''.json''],
                      dataCache := (dataCache st)(''state-'' @ state \<mapsto> data)\<rparr>) = (rs', st') \<and>
          dataCache st' (''state-'' @ state) = Some d \<and>
          step (CallState state) (rs', st') = (rs' @ [Settled (Inr d)], st'))) \<and>
    (dataCache cst ''country'' = None \<and> \<not> ok cresponse \<longrightarrow>
       run [CallCountry, FetchSettles (length crs) (Resolved cresponse)] (crs, cst)
         = (crs @ [Settled (Inl (Error (''Failed to load country data: ''
                                         @ show_int (status cresponse))))],
            cst\<lparr>fetched := fetched cst @ [''/data/country.json'']\<rparr>) \<and>
       step CallCountry
           (crs @ [Settled (Inl (Error (''Failed to load country data: ''
                                         @ show_int (status cresponse))))],
            cst\<lparr>fetched := fetched cst @ [''/data/country.json'']\<rparr>)
         = (crs @ [Settled (Inl (Error (''Failed to load country data: ''
                                         @ show_int (status cresponse)))),
                   AwaitFetch ''country'' ''Failed to load country data''],
            cst\<lparr>fetched := fetched cst @ [''/data/country.json'', ''/data/country.json'']\<rparr>)) \<and>
    (dataCache cst ''country'' = None \<and> ok cresponse \<and> body cresponse = Some cdata \<longrightarrow>
       run [CallCountry, FetchSettles (length crs) (Resolved cresponse), JsonSettles (length crs)]
           (crs, cst)
         = (crs @ [Settled (Inr cdata)],
            cst\<lparr>fetched := fetched cst @ [''/data/country.json''],
                 dataCache := (dataCache cst)(''country'' \<mapsto> cdata)\<rparr>) \<and>
       step CallCountry
           (crs @ [Settled (Inr cdata)],
            cst\<lparr>fetched := fetched cst @ [''/data/country.json''],
                 dataCache := (dataCache cst)(''country'' \<mapsto> cdata)\<rparr>)
         = (crs @ [Settled (Inr cdata), Settled (Inr cdata)],
            cst\<lparr>fetched := fetched cst @ [''/data/country.json''],
                 dataCache := (dataCache cst)(''country'' \<mapsto> cdata)\<rparr>) \<and>
       (\<exists>rs' st' d.
          run ces (crs @ [Settled (Inr cdata)],
                   cst\<lparr>fetched := fetched cst @ [''/data/country.json''],
                        dataCache := (dataCache cst)(''country'' \<mapsto> cdata)\<rparr>) = (rs', st') \<and>
          dataCache st' ''country'' = Some d \<and>
          step CallCountry (rs', st') = (rs' @ [Settled (Inr d)], st')))"
proof (intro conjI impI)
  assume a: "dataCache st (''state-'' @ state) = None \<and> \<not> ok response"
  from failed_request [OF conjunct1 [OF a] conjunct2 [OF a] step_CallState, of rs]
  show "run [CallState state, FetchSettles (length rs) (Resolved response)] (rs, st)
         = (rs @ [Settled (Inl (Error (''Failed to load state data for '' @ state @ '': ''
                                        @ show_int (status response))))],
            st\<lparr>fetched := fetched st @ [''/data/state_'' @ state @ ''.json'']\<rparr>)"
    and "step (CallState state)
           (rs @ [Settled (Inl (Error (''Failed to load state data for '' @ state @ '': ''
                                        @ show_int (status response))))],
            st\<lparr>fetched := fetched st @ [''/data/state_'' @ state @ ''.json'']\<rparr>)
         = (rs @ [Settled (Inl (Error (''Failed to load state data for '' @ state @ '': ''
                                        @ show_int (status response)))),
                  AwaitFetch (''state-'' @ state) (''Failed to load state data for '' @ state)],
            st\<lparr>fetched := fetched st @ [''/data/state_'' @ state @ ''.json'',
                                          ''/data/state_'' @ state @ ''.json'']\<rparr>)"
    by simp_all
next
  assume a: "dataCache st (''state-'' @ state) = None \<and> ok response \<and> body response = Some data"
  then have k: "dataCache st (''state-'' @ state) = None" and o: "ok response"
    and b: "body response = Some data" by blast+
  let ?st = "st\<lparr>fetched := fetched st @ [''/data/state_'' @ state @ ''.json''],
                dataCache := (dataCache st)(''state-'' @ state \<mapsto> data)\<rparr>"
  from successful_request [OF k o b step_CallState, of rs]
  show "run [CallState state, FetchSettles (length rs) (Resolved response), JsonSettles (length rs)]
           (rs, st) = (rs @ [Settled (Inr data)], ?st)"
    and "step (CallState state) (rs @ [Settled (Inr data)], ?st)
           = (rs @ [Settled (Inr data), Settled (Inr data)], ?st)"
    by simp_all
  have "dataCache ?st (''state-'' @ state) \<noteq> None" by simp
  from later_call_is_cached [OF this step_CallState]
  show "\<exists>rs' st' d. run es (rs @ [Settled (Inr data)], ?st) = (rs', st') \<and>
          dataCache st' (''state-'' @ state) = Some d \<and>
          step (CallState state) (rs', st') = (rs' @ [Settled (Inr d)], st')" .
next
  assume a: "dataCache cst ''country'' = None \<and> \<not> ok cresponse"
  from failed_request [OF conjunct1 [OF a] conjunct2 [OF a] step_CallCountry, of crs]
  show "run [CallCountry, FetchSettles (length crs) (Resolved cresponse)] (crs, cst)
         = (crs @ [Settled (Inl (Error (''Failed to load country data: ''
                                         @ show_int (status cresponse))))],
            cst\<lparr>fetched := fetched cst @ [''/data/country.json'']\<rparr>)"
    and "step CallCountry
           (crs @ [Settled (Inl (Error (''Failed to load country data: ''
                                         @ show_int (status cresponse))))],
            cst\<lparr>fetched := fetched cst @ [''/data/country.json'']\<rparr>)
         = (crs @ [Settled (Inl (Error (''Failed to load country data: ''
                                         @ show_int (status cresponse)))),
                   AwaitFetch ''country'' ''Failed to load country data''],
            cst\<lparr>fetched := fetched cst @ [''/data/country.json'', ''/data/country.json'']\<rparr>)"
    by simp_all
next
  assume a: "dataCache cst ''country'' = None \<and> ok cresponse \<and> body cresponse = Some cdata"
  then have k: "dataCache cst ''country'' = None" and o: "ok cresponse"
    and b: "body cresponse = Some cdata" by blast+
  let ?st = "cst\<lparr>fetched := fetched cst @ [''/data/country.json''],
                 dataCache := (dataCache cst)(''country'' \<mapsto> cdata)\<rparr>"
  from successful_request [OF k o b step_CallCountry, of crs]
  show "run [CallCountry, FetchSettles (length crs) (Resolved cresponse), JsonSettles (length crs)]
           (crs, cst) = (crs @ [Settled (Inr cdata)], ?st)"
    and "step CallCountry (crs @ [Settled (Inr cdata)], ?st)
           = (crs @ [Settled (Inr cdata), Settled (Inr cdata)], ?st)"
    by simp_all
  have "dataCache ?st ''country'' \<noteq> None" by simp
  from later_call_is_cached [OF this step_CallCountry]
  show "\<exists>rs' st' d. run ces (crs @ [Settled (Inr cdata)], ?st) = (rs', st') \<and>
          dataCache st' ''country'' = Some d \<and>
          step CallCountry (rs', st') = (rs' @ [Settled (Inr d)], st')" .
qed

theorem failed_load_not_cached_successful_load_cached_witness:
  "dataCache empty_loader_state (''state-'' @ ''KA'') = None \<and>
   dataCache empty_loader_state ''country'' = None \<and>
   \<not> ok not_found \<and> ok found \<and> body found = Some ''{}'' \<and>
   run [CallState ''KA'', FetchSettles 0 (Resolved not_found)] ([], empty_loader_state)
     = ([Settled (Inl (Error ''Failed to load state data for KA: 404''))],
        \<lparr>dataCache = Map.empty, fetched = [''/data/state_KA.json'']\<rparr>) \<and>
   step (CallState ''KA'')
       ([Settled (Inl (Error ''Failed to load state data for KA: 404''))],
        \<lparr>dataCache = (Map.empty :: string \<rightharpoonup> string), fetched = [''/data/state_KA.json'']\<rparr>)
     = ([Settled (Inl (Error ''Failed to load state data for KA: 404'')),
         AwaitFetch ''state-KA'' ''Failed to load state data for KA''],
        \<lparr>dataCache = Map.empty, fetched = [''/data/state_KA.json'', ''/data/state_KA.json'']\<rparr>) \<and>
   run [CallState ''KA'', FetchSettles 0 (Resolved found), JsonSettles 0] ([], empty_loader_state)
     = ([Settled (Inr ''{}'')],
        \<lparr>dataCache = [''state-KA'' \<mapsto> ''{}''], fetched = [''/data/state_KA.json'']\<rparr>) \<and>
   step (CallState ''KA'')
       ([Settled (Inr ''{}'')],
        \<lparr>dataCache = [''state-KA'' \<mapsto> ''{}''], fetched = [''/data/state_KA.json'']\<rparr>)
     = ([Settled (Inr ''{}''), Settled (Inr ''{}'')],
        \<lparr>dataCache = [''state-KA'' \<mapsto> ''{}''], fetched = [''/data/state_KA.json'']\<rparr>) \<and>
   run [CallCountry, FetchSettles 0 (Resolved not_found)] ([], empty_loader_state)
     = ([Settled (Inl (Error ''Failed to load country data: 404''))],
        \<lparr>dataCache = Map.empty, fetched = [''/data/country.json'']\<rparr>) \<and>
   run [CallCountry, FetchSettles 0 (Resolved found), JsonSettles 0] ([], empty_loader_state)
     = ([Settled (Inr ''{}'')],
        \<lparr>dataCache = [''country'' \<mapsto> ''{}''], fetched = [''/data/country.json'']\<rparr>)"
  using
    failed_load_not_cached_successful_load_cached
      [where st = empty_loader_state and state = "''KA''" and response = not_found and rs = "[]"
         and cst = empty_loader_state and cresponse = not_found and crs = "[]"]
    failed_load_not_cached_successful_load_cached
      [where st = empty_loader_state and state = "''KA''" and response = found and rs = "[]"
         and data = "''{}''" and es = "[]"
         and cst = empty_loader_state and cresponse = found and crs = "[]"
         and cdata = "''{}''" and ces = "[]"]
  by (simp add: empty_loader_state_def not_found_def found_def show_int_def digits.simps
      digit_char_simps del: step.simps)


section \<open>Formatting\<close>

lemmas format_simps =
  double_div_def toFixed1_def round_half_even_def bit_length.simps digits.simps
  digit_char_simps show_int_def Let_def

text \<open>
  Claim C7. \<open>formatNumber\<close> at the boundaries of its three tiers: 999 is printed as it
  is, 1000 is \<^verbatim>\<open>1.0K\<close>, 99999 is \<^verbatim>\<open>100.0K\<close>, 100000 is \<^verbatim>\<open>1.0 L\<close>, 9999999 is
  \<^verbatim>\<open>100.0 L\<close> and 10000000 is \<^verbatim>\<open>1.0 Cr\<close>.
\<close>

theorem formatNumber_boundaries:
  "formatNumber (Num 999) = ''999'' \<and>
   formatNumber (Num 1000) = ''1.0K'' \<and>
   formatNumber (Num 99999) = ''100.0K'' \<and>
   formatNumber (Num 100000) = ''1.0 L'' \<and>
   formatNumber (Num 9999999) = ''100.0 L'' \<and>
   formatNumber (Num 10000000) = ''1.0 Cr''"
proof (intro conjI)
  show "formatNumber (Num 999) = ''999''"
    by (simp add: formatNumber_def format_simps)
  show "formatNumber (Num 1000) = ''1.0K''"
    by (simp add: formatNumber_def format_simps)
  show "formatNumber (Num 99999) = ''100.0K''"
    by (simp add: formatNumber_def format_simps)
  show "formatNumber (Num 100000) = ''1.0 L''"
    by (simp add: formatNumber_def format_simps)
  show "formatNumber (Num 9999999) = ''100.0 L''"
    by (simp add: formatNumber_def format_simps)
  show "formatNumber (Num 10000000) = ''1.0 Cr''"
    by (simp add: formatNumber_def format_simps)
qed

text \<open>
  Claim C8. For \<^verbatim>\<open>null\<close>, \<^verbatim>\<open>undefined\<close> and \<^verbatim>\<open>NaN\<close> every formatter returns the zero
  string of its variant and does not fail: \<open>formatNumber\<close> and \<open>formatCount\<close> return
  \<^verbatim>\<open>0\<close>, \<open>formatCurrency\<close> returns the rupee sign followed by \<^verbatim>\<open>0\<close>.
\<close>

theorem formatters_on_missing_input:
  "formatNumber Null = ''0'' \<and> formatNumber Undefined = ''0'' \<and> formatNumber NaN = ''0'' \<and>
   formatCount Null = ''0'' \<and> formatCount Undefined = ''0'' \<and> formatCount NaN = ''0'' \<and>
   formatCurrency Null = rupee @ ''0'' \<and> formatCurrency Undefined = rupee @ ''0'' \<and>
   formatCurrency NaN = rupee @ ''0''"
  by (simp add: formatNumber_def formatCount_def formatCurrency_def)

end
